theory Spec2Isabelle
  imports Main "HOL-Library.Sublist" "HOL-Library.Multiset"
begin

section \<open>JavaScript strings\<close>

text \<open>
  A string is the list of its UTF-16 code units, and a character of the model stands for
  a code unit below 256 (the ASCII and Latin-1 range). A string that holds a code unit
  from 256 on is outside the model.
\<close>

definition isDigit :: "char \<Rightarrow> bool" where
  "isDigit c = (c \<in> set ''0123456789'')"

text \<open>
  White space as \<^verbatim>\<open>\s\<close>, \<^verbatim>\<open>trim\<close> and \<^verbatim>\<open>Number\<close> see it. Below 256 these are
  TAB, LF, VT, FF, CR, the space and the no-break space U+00A0; the other white space of
  ECMAScript (U+1680, U+2000 to U+200A, U+2028, U+2029, U+202F, U+205F, U+3000, U+FEFF) is
  from 256 on.
\<close>

definition isSpace :: "char \<Rightarrow> bool" where
  "isSpace c =
     (c \<in> set [CHR 0x09, CHR 0x0A, CHR 0x0B, CHR 0x0C, CHR 0x0D, CHR '' '', CHR 0xA0])"

text \<open>
  \<^verbatim>\<open>toUpperCase\<close>. Below 256 the letters with an upper-case form are a to z, the
  Latin-1 letters U+00E0 to U+00FE without the division sign U+00F7, which go 32 down, the
  sharp s U+00DF, which becomes SS, and the micro sign U+00B5 and the y with diaeresis
  U+00FF, whose upper-case forms U+039C and U+0178 are from 256 on. The model leaves these
  last two as they are; \<open>upperCaseInModel\<close> says that a string has neither.
\<close>

definition lowerLetters :: string where
  "lowerLetters =
     ''abcdefghijklmnopqrstuvwxyz'' @
     [CHR 0xE0, CHR 0xE1, CHR 0xE2, CHR 0xE3, CHR 0xE4, CHR 0xE5, CHR 0xE6, CHR 0xE7,
      CHR 0xE8, CHR 0xE9, CHR 0xEA, CHR 0xEB, CHR 0xEC, CHR 0xED, CHR 0xEE, CHR 0xEF,
      CHR 0xF0, CHR 0xF1, CHR 0xF2, CHR 0xF3, CHR 0xF4, CHR 0xF5, CHR 0xF6,
      CHR 0xF8, CHR 0xF9, CHR 0xFA, CHR 0xFB, CHR 0xFC, CHR 0xFD, CHR 0xFE]"

definition upperLetters :: string where
  "upperLetters =
     ''ABCDEFGHIJKLMNOPQRSTUVWXYZ'' @
     [CHR 0xC0, CHR 0xC1, CHR 0xC2, CHR 0xC3, CHR 0xC4, CHR 0xC5, CHR 0xC6, CHR 0xC7,
      CHR 0xC8, CHR 0xC9, CHR 0xCA, CHR 0xCB, CHR 0xCC, CHR 0xCD, CHR 0xCE, CHR 0xCF,
      CHR 0xD0, CHR 0xD1, CHR 0xD2, CHR 0xD3, CHR 0xD4, CHR 0xD5, CHR 0xD6,
      CHR 0xD8, CHR 0xD9, CHR 0xDA, CHR 0xDB, CHR 0xDC, CHR 0xDD, CHR 0xDE]"

definition toUpperChar :: "char \<Rightarrow> char" where
  "toUpperChar c = (case map_of (zip lowerLetters upperLetters) c of Some u \<Rightarrow> u | None \<Rightarrow> c)"

definition toUpperCase :: "string \<Rightarrow> string" where
  "toUpperCase s = concat (map (\<lambda>c. if c = CHR 0xDF then ''SS'' else [toUpperChar c]) s)"

definition upperCaseInModel :: "string \<Rightarrow> bool" where
  "upperCaseInModel s = (CHR 0xB5 \<notin> set s \<and> CHR 0xFF \<notin> set s)"

text \<open>
  \<^verbatim>\<open>s.replace(/\s+/g, '')\<close>: from the left, every run of white space, taken whole, is
  replaced by the empty string.
\<close>

function removeSpaceRuns :: "string \<Rightarrow> string" where
  "removeSpaceRuns [] = []"
| "removeSpaceRuns (c # cs) =
     (if isSpace c then removeSpaceRuns (dropWhile isSpace cs) else c # removeSpaceRuns cs)"
  by pat_completeness auto
termination
  by (relation "measure length") (auto simp: length_dropWhile_le less_Suc_eq_le)

definition digit_char :: "nat \<Rightarrow> char" where
  "digit_char n = ''0123456789'' ! n"

definition digit_val :: "char \<Rightarrow> nat" where
  "digit_val c = of_char c - 48"

text \<open>\<^verbatim>\<open>String(n)\<close> on an integer: its decimal digits, with a minus sign below zero.\<close>

fun String_nat :: "nat \<Rightarrow> string" where
  "String_nat n =
     (if n < 10 then [digit_char n] else String_nat (n div 10) @ [digit_char (n mod 10)])"

declare String_nat.simps [simp del]

definition String_int :: "int \<Rightarrow> string" where
  "String_int i = (if i < 0 then CHR ''-'' # String_nat (nat (- i)) else String_nat (nat i))"

definition padStart :: "nat \<Rightarrow> char \<Rightarrow> string \<Rightarrow> string" where
  "padStart n c s = replicate (n - length s) c @ s"

definition startsWith :: "string \<Rightarrow> string \<Rightarrow> bool" where
  "startsWith s p = prefix p s"

definition trim :: "string \<Rightarrow> string" where
  "trim s = rev (dropWhile isSpace (rev (dropWhile isSpace s)))"

text \<open>
  \<^verbatim>\<open>s.split(sep)\<close> for a non-empty separator: the pieces between the occurrences of
  \<^verbatim>\<open>sep\<close>, scanned from the left. The accumulator holds the current piece, reversed.
\<close>

function splitFrom :: "string \<Rightarrow> string \<Rightarrow> string \<Rightarrow> string list" where
  "splitFrom sep acc [] = [rev acc]"
| "splitFrom sep acc (c # cs) =
     (if sep \<noteq> [] \<and> prefix sep (c # cs)
      then rev acc # splitFrom sep [] (drop (length sep) (c # cs))
      else splitFrom sep (c # acc) cs)"
  by pat_completeness auto
termination
  by (relation "measure (\<lambda>(sep, acc, s). length s)") (auto simp: neq_Nil_conv)

definition split :: "string \<Rightarrow> string \<Rightarrow> string list" where
  "split sep s = splitFrom sep [] s"

section \<open>JavaScript numbers read from strings\<close>

text \<open>
  The value of \<^verbatim>\<open>Number(s)\<close>. \<open>Finite m e\<close> stands for the double nearest to
  \<open>m * 10 ^ e\<close>, the number the literal spells; the model computes with it only when it
  is an integer of moderate size, which is a double. \<open>Inexact\<close> stands for a finite double
  that the model does not compute, the result of floating-point arithmetic on a number that
  is not such an integer.
\<close>

datatype jsnum = NaN | PosInfinity | NegInfinity | Finite int int | Inexact

definition isNaN :: "jsnum \<Rightarrow> bool" where
  "isNaN x = (x = NaN)"

definition digitsValue :: "string \<Rightarrow> int" where
  "digitsValue s = foldl (\<lambda>a c. 10 * a + int (digit_val c)) 0 s"

definition hexDigitValue :: "char \<Rightarrow> nat option" where
  "hexDigitValue c =
     map_of (zip ''0123456789abcdefABCDEF''
       [0, 1, 2, 3, 4, 5, 6, 7, 8, 9, 10, 11, 12, 13, 14, 15, 10, 11, 12, 13, 14, 15]) c"

text \<open>A literal with a radix prefix: one or more digits below the radix, nothing else.\<close>

definition radixLiteral :: "nat \<Rightarrow> string \<Rightarrow> jsnum" where
  "radixLiteral r s =
     (if s \<noteq> [] \<and> list_all (\<lambda>c. case hexDigitValue c of None \<Rightarrow> False | Some v \<Rightarrow> v < r) s
      then Finite (foldl (\<lambda>a c. int r * a + int (the (hexDigitValue c))) 0 s) 0
      else NaN)"

text \<open>The exponent part after the mantissa: nothing, or \<^verbatim>\<open>e\<close> with a signed integer.\<close>

definition exponentPart :: "string \<Rightarrow> int option" where
  "exponentPart s =
     (case s of
        [] \<Rightarrow> Some 0
      | c # r \<Rightarrow>
          if c = CHR ''e'' \<or> c = CHR ''E'' then
            (let (neg, ds) =
               (case r of
                  [] \<Rightarrow> (False, [])
                | x # xs \<Rightarrow>
                    if x = CHR ''+'' then (False, xs)
                    else if x = CHR ''-'' then (True, xs)
                    else (False, r))
             in if ds \<noteq> [] \<and> list_all isDigit ds
                then Some (if neg then - digitsValue ds else digitsValue ds)
                else None)
          else None)"

text \<open>
  An unsigned decimal literal: \<^verbatim>\<open>Infinity\<close>, or digits with an optional fraction and an
  optional exponent, with at least one digit before or after the point.
\<close>

definition unsignedDecimal :: "string \<Rightarrow> jsnum" where
  "unsignedDecimal s =
     (if s = ''Infinity'' then PosInfinity
      else
        (let ip = takeWhile isDigit s;
             r1 = dropWhile isDigit s;
             dot = (r1 \<noteq> [] \<and> hd r1 = CHR ''.'');
             fp = (if dot then takeWhile isDigit (tl r1) else []);
             r2 = (if dot then dropWhile isDigit (tl r1) else r1)
         in if ip = [] \<and> fp = [] then NaN
            else
              (case exponentPart r2 of
                 None \<Rightarrow> NaN
               | Some e \<Rightarrow> Finite (digitsValue (ip @ fp)) (e - int (length fp)))))"

definition negate :: "jsnum \<Rightarrow> jsnum" where
  "negate x =
     (case x of
        NaN \<Rightarrow> NaN
      | PosInfinity \<Rightarrow> NegInfinity
      | NegInfinity \<Rightarrow> PosInfinity
      | Finite m e \<Rightarrow> Finite (- m) e
      | Inexact \<Rightarrow> Inexact)"

definition Number :: "string \<Rightarrow> jsnum" where
  "Number s =
     (let t = trim s in
      case t of
        [] \<Rightarrow> Finite 0 0
      | c # r \<Rightarrow>
          if c = CHR ''+'' then unsignedDecimal r
          else if c = CHR ''-'' then negate (unsignedDecimal r)
          else if c = CHR ''0'' \<and> r \<noteq> [] \<and> hd r \<in> set ''xX'' then radixLiteral 16 (tl r)
          else if c = CHR ''0'' \<and> r \<noteq> [] \<and> hd r \<in> set ''oO'' then radixLiteral 8 (tl r)
          else if c = CHR ''0'' \<and> r \<noteq> [] \<and> hd r \<in> set ''bB'' then radixLiteral 2 (tl r)
          else unsignedDecimal t)"

text \<open>
  \<^verbatim>\<open>parseInt\<close> on a string of decimal digits, which is all the parser gives it: the
  integer the digits spell. The engine rounds it to a double, the same number below
  \<open>2 ^ 53\<close>.
\<close>

definition parseInt :: "string \<Rightarrow> int" where
  "parseInt s = digitsValue (takeWhile isDigit s)"

text \<open>
  The numbers the model computes dates with: the integers up to \<open>safeLimit\<close> in absolute
  value, which are doubles. \<open>safeInteger\<close> gives the integer of such a number, and
  \<open>None\<close> for any other number.
\<close>

definition safeLimit :: int where
  "safeLimit = 1000000"

definition safeInteger :: "jsnum \<Rightarrow> int option" where
  "safeInteger x =
     (case x of
        Finite m e \<Rightarrow>
          (if 0 \<le> e
           then (if \<bar>m * 10 ^ nat e\<bar> \<le> safeLimit then Some (m * 10 ^ nat e) else None)
           else if m mod 10 ^ nat (- e) = 0 \<and> \<bar>m div 10 ^ nat (- e)\<bar> \<le> safeLimit
                then Some (m div 10 ^ nat (- e))
                else None)
      | _ \<Rightarrow> None)"

definition notFinite :: "jsnum \<Rightarrow> bool" where
  "notFinite x = (x = NaN \<or> x = PosInfinity \<or> x = NegInfinity)"

text \<open>
  The value of \<^verbatim>\<open>x - 1\<close>: the integer one below for a safe integer, the same for a
  number that is not finite, and a double the model does not compute otherwise.
\<close>

definition minusOne :: "jsnum \<Rightarrow> jsnum" where
  "minusOne x =
     (if notFinite x then x
      else case safeInteger x of Some v \<Rightarrow> Finite (v - 1) 0 | None \<Rightarrow> Inexact)"

section \<open>JavaScript dates\<close>

text \<open>
  The calendar arithmetic of ECMAScript on time values, in milliseconds. The model takes
  the local time zone to be UTC, so a local time value is the time value itself.
  A date is \<open>InvalidDate\<close>, or holds a time value, or is \<open>EngineDate\<close>: a date that the
  engine computes in floating point from components that are not safe integers, and that
  the model does not compute.
\<close>

datatype jsdate = InvalidDate | Date int | EngineDate

definition msPerDay :: int where
  "msPerDay = 86400000"

definition Day :: "int \<Rightarrow> int" where
  "Day t = t div msPerDay"

definition InLeapYear :: "int \<Rightarrow> bool" where
  "InLeapYear y = ((y mod 4 = 0 \<and> y mod 100 \<noteq> 0) \<or> y mod 400 = 0)"

definition DaysInYear :: "int \<Rightarrow> int" where
  "DaysInYear y = (if InLeapYear y then 366 else 365)"

definition DayFromYear :: "int \<Rightarrow> int" where
  "DayFromYear y =
     365 * (y - 1970) + (y - 1969) div 4 - (y - 1901) div 100 + (y - 1601) div 400"

text \<open>
  The year of a day number: the largest \<open>y\<close> with \<open>DayFromYear y \<le> d\<close>, found from an
  estimate that is off by one year at most (lemma \<open>YearFromDay_bracket\<close>).
\<close>

definition YearFromDay :: "int \<Rightarrow> int" where
  "YearFromDay d =
     (let y0 = 1970 + (d * 400) div 146097 in
      if d < DayFromYear y0 then y0 - 1
      else if DayFromYear (y0 + 1) \<le> d then y0 + 1
      else y0)"

definition DayWithinYear :: "int \<Rightarrow> int" where
  "DayWithinYear d = d - DayFromYear (YearFromDay d)"

text \<open>The number of days of the year before month \<open>m\<close> (0 for January to 11 for December).\<close>

definition daysBeforeMonth :: "int \<Rightarrow> bool \<Rightarrow> int" where
  "daysBeforeMonth m leap =
     (let l = (if leap then 1 else 0) in
      if m = 0 then 0
      else if m = 1 then 31
      else if m = 2 then 59 + l
      else if m = 3 then 90 + l
      else if m = 4 then 120 + l
      else if m = 5 then 151 + l
      else if m = 6 then 181 + l
      else if m = 7 then 212 + l
      else if m = 8 then 243 + l
      else if m = 9 then 273 + l
      else if m = 10 then 304 + l
      else 334 + l)"

definition MonthFromDay :: "int \<Rightarrow> int" where
  "MonthFromDay d =
     (let w = DayWithinYear d; l = (if InLeapYear (YearFromDay d) then 1 else 0) in
      if w < 31 then 0
      else if w < 59 + l then 1
      else if w < 90 + l then 2
      else if w < 120 + l then 3
      else if w < 151 + l then 4
      else if w < 181 + l then 5
      else if w < 212 + l then 6
      else if w < 243 + l then 7
      else if w < 273 + l then 8
      else if w < 304 + l then 9
      else if w < 334 + l then 10
      else 11)"

definition DateFromDay :: "int \<Rightarrow> int" where
  "DateFromDay d =
     DayWithinYear d - daysBeforeMonth (MonthFromDay d) (InLeapYear (YearFromDay d)) + 1"

text \<open>The getters of a valid date, on its time value.\<close>

definition getFullYear :: "int \<Rightarrow> int" where
  "getFullYear t = YearFromDay (Day t)"

definition getMonth :: "int \<Rightarrow> int" where
  "getMonth t = MonthFromDay (Day t)"

definition getDate :: "int \<Rightarrow> int" where
  "getDate t = DateFromDay (Day t)"

definition getHours :: "int \<Rightarrow> int" where
  "getHours t = (t div 3600000) mod 24"

definition getMinutes :: "int \<Rightarrow> int" where
  "getMinutes t = (t div 60000) mod 60"

text \<open>
  \<^verbatim>\<open>MakeTime\<close>, \<^verbatim>\<open>MakeDay\<close>, \<^verbatim>\<open>MakeDate\<close> and \<^verbatim>\<open>TimeClip\<close> of ECMAScript, on
  integers. The engine computes them on doubles, and its \<^verbatim>\<open>MakeDay\<close> answers NaN for a
  year or a month far out of range. \<open>newDate\<close> applies them to safe integers only: there
  the year and the month are within the range that the engines accept, the day number is
  exact, and the time is either exact or, in the engine as here, beyond the range of dates.
\<close>

definition MakeTime :: "int \<Rightarrow> int \<Rightarrow> int \<Rightarrow> int \<Rightarrow> int" where
  "MakeTime hour minute sec ms = hour * 3600000 + minute * 60000 + sec * 1000 + ms"

definition MakeDay :: "int \<Rightarrow> int \<Rightarrow> int \<Rightarrow> int" where
  "MakeDay year month date =
     (let ym = year + month div 12; mn = month mod 12
      in DayFromYear ym + daysBeforeMonth mn (InLeapYear ym) + date - 1)"

definition MakeDate :: "int \<Rightarrow> int \<Rightarrow> int" where
  "MakeDate day time = day * msPerDay + time"

definition TimeClip :: "int \<Rightarrow> jsdate" where
  "TimeClip t = (if \<bar>t\<bar> > 8640000000000000 then InvalidDate else Date t)"

text \<open>
  \<^verbatim>\<open>new Date(y, m, d, hour, minute)\<close>: a component that is not finite gives an invalid
  date; with safe integers, a year from 0 to 99 means 1900 to 1999, components out of range
  roll over, and a time out of the range of dates gives an invalid date. With any other
  component the date is the engine's.
\<close>

definition newDate :: "jsnum \<Rightarrow> jsnum \<Rightarrow> jsnum \<Rightarrow> int \<Rightarrow> int \<Rightarrow> jsdate" where
  "newDate y m d hour minute =
     (if notFinite y \<or> notFinite m \<or> notFinite d then InvalidDate
      else
        (case (safeInteger y, safeInteger m, safeInteger d) of
           (Some yi, Some mi, Some di) \<Rightarrow>
             if hour \<le> safeLimit \<and> minute \<le> safeLimit
             then (let yr = (if 0 \<le> yi \<and> yi \<le> 99 then 1900 + yi else yi)
                   in TimeClip (MakeDate (MakeDay yr mi di) (MakeTime hour minute 0 0)))
             else EngineDate
         | _ \<Rightarrow> EngineDate))"

text \<open>
  \<^verbatim>\<open>getTime()\<close> where the model has a time: \<open>None\<close> stands for the NaN of an invalid
  date and for the time of a date that the model does not compute.
\<close>

definition getTime :: "jsdate \<Rightarrow> int option" where
  "getTime dt = (case dt of Date t \<Rightarrow> Some t | _ \<Rightarrow> None)"

section \<open>The order form: order blocks\<close>

record OrderBlock =
  block_id :: string
  block_description :: string
  block_notes :: string
  block_guests :: string

datatype block_field = Description | Notes | Guests

text \<open>The state the form starts with: one empty block whose id is \<^verbatim>\<open>'1'\<close>.\<close>

definition initialBlocks :: "OrderBlock list" where
  "initialBlocks =
     [\<lparr>block_id = ''1'', block_description = [], block_notes = [], block_guests = []\<rparr>]"

text \<open>\<^verbatim>\<open>addOrderBlock\<close>; the first argument is the reading of \<^verbatim>\<open>Date.now()\<close>.\<close>

definition newBlock :: "int \<Rightarrow> OrderBlock" where
  "newBlock now =
     \<lparr>block_id = String_int now, block_description = [], block_notes = [], block_guests = []\<rparr>"

definition addOrderBlock :: "int \<Rightarrow> OrderBlock list \<Rightarrow> OrderBlock list" where
  "addOrderBlock now prev = prev @ [newBlock now]"

fun setField :: "block_field \<Rightarrow> string \<Rightarrow> OrderBlock \<Rightarrow> OrderBlock" where
  "setField Description v b = b\<lparr>block_description := v\<rparr>"
| "setField Notes v b = b\<lparr>block_notes := v\<rparr>"
| "setField Guests v b = b\<lparr>block_guests := v\<rparr>"

definition updateBlock ::
  "string \<Rightarrow> block_field \<Rightarrow> string \<Rightarrow> OrderBlock list \<Rightarrow> OrderBlock list" where
  "updateBlock i field v prev = map (\<lambda>b. if block_id b = i then setField field v b else b) prev"

text \<open>
  \<^verbatim>\<open>removeBlock\<close>. The guard reads \<^verbatim>\<open>orderBlocks\<close>, the list of the render that made
  the handler; the filter runs on \<^verbatim>\<open>prev\<close>, the state at the time of the update. The
  two are the same list when one removal is handled after a render.
\<close>

definition removeBlock :: "string \<Rightarrow> OrderBlock list \<Rightarrow> OrderBlock list \<Rightarrow> OrderBlock list" where
  "removeBlock i orderBlocks prev =
     (if length orderBlocks > 1 then filter (\<lambda>b. block_id b \<noteq> i) prev else prev)"

section \<open>The order form: storage and clients\<close>

record Client =
  client_mobile :: string
  client_name :: string
  client_address :: string
  client_notes :: string

text \<open>
  An entry of the stored \<^verbatim>\<open>orders\<close> array as it is read back: a field that is missing is
  \<open>None\<close>.
\<close>

record StoredOrder =
  raw_id :: "string option"
  raw_clientName :: "string option"
  raw_mobile :: "string option"
  raw_address :: "string option"
  raw_dateTime :: "string option"
  raw_orderBlocks :: "OrderBlock list option"
  raw_quotationAmount :: "string option"
  raw_pdfUri :: "string option"

text \<open>
  A key of the key-value store: absent (or the empty string), a text that is not JSON, a
  JSON text whose value is not an array, or a JSON array. The elements of an array are
  records whose fields, where present, have the types the app writes; an array with any
  other element is outside the model.
\<close>

datatype 'a slot = Absent | Unparsable | NonArray | Stored "'a list"

text \<open>What \<^verbatim>\<open>JSON.parse\<close> returns for a text that parses: an array, or another value.\<close>

datatype 'a parsed = NotArray | Array "'a list"

record Storage =
  orders_key :: "StoredOrder slot"
  clients_key :: "Client slot"

text \<open>
  The steps that reach the file system or the store; each of them may fail, which the
  parameter \<open>fails\<close> of the operations decides. A write that fails leaves the key unchanged.
\<close>

datatype io_step =
  EnsureFolder | PrintToFile | CopyFile | GetOrders | SetOrders | GetClients | SetClients

datatype error = IOError | SyntaxError | TypeError

record OrderForm =
  orderId :: string
  clientName :: string
  mobile :: string
  address :: string
  date :: int
  time :: int
  orderBlocks :: "OrderBlock list"
  quotationAmount :: string

text \<open>
  \<^verbatim>\<open>loadClients\<close>: a read that fails and a text that is not JSON are caught and give the
  empty array; a JSON text is returned as it parses, array or not.
\<close>

definition loadClients :: "(io_step \<Rightarrow> bool) \<Rightarrow> Storage \<Rightarrow> Client parsed" where
  "loadClients fails st =
     (if fails GetClients then Array []
      else case clients_key st of
             Absent \<Rightarrow> Array []
           | Unparsable \<Rightarrow> Array []
           | NonArray \<Rightarrow> NotArray
           | Stored cs \<Rightarrow> Array cs)"

text \<open>\<^verbatim>\<open>Object.assign(existing, newClient)\<close> on the first client with the mobile, in place.\<close>

fun assignExisting :: "string \<Rightarrow> Client \<Rightarrow> Client list \<Rightarrow> Client list" where
  "assignExisting m newClient [] = []"
| "assignExisting m newClient (c # cs) =
     (if client_mobile c = m then newClient # cs else c # assignExisting m newClient cs)"

text \<open>
  \<^verbatim>\<open>saveClient\<close>. \<^verbatim>\<open>clients.find\<close> throws a TypeError on a value that is not an array,
  and so does \<^verbatim>\<open>orderBlocks[0].notes\<close> on an empty block list.
\<close>

definition saveClient :: "(io_step \<Rightarrow> bool) \<Rightarrow> OrderForm \<Rightarrow> Storage \<Rightarrow> Storage \<times> (error + unit)" where
  "saveClient fails f st =
     (if mobile f = [] \<or> clientName f = [] then (st, Inr ())
      else
        (case loadClients fails st of
           NotArray \<Rightarrow> (st, Inl TypeError)
         | Array clients \<Rightarrow>
             (let existing = find (\<lambda>c. client_mobile c = mobile f) clients
              in case orderBlocks f of
                   [] \<Rightarrow> (st, Inl TypeError)
                 | b0 # _ \<Rightarrow>
                     (let newClient = \<lparr>client_mobile = mobile f, client_name = clientName f,
                                        client_address = address f, client_notes = block_notes b0\<rparr>;
                          clients' = (case existing of
                                        None \<Rightarrow> clients @ [newClient]
                                      | Some _ \<Rightarrow> assignExisting (mobile f) newClient clients)
                      in if fails SetClients then (st, Inl IOError)
                         else (st\<lparr>clients_key := Stored clients'\<rparr>, Inr ())))))"

section \<open>The order form: the quotation id\<close>

text \<open>\<^verbatim>\<open>stored ? JSON.parse(stored) : []\<close> on the \<^verbatim>\<open>orders\<close> key.\<close>

definition readOrders :: "(io_step \<Rightarrow> bool) \<Rightarrow> Storage \<Rightarrow> error + StoredOrder parsed" where
  "readOrders fails st =
     (if fails GetOrders then Inl IOError
      else case orders_key st of
             Absent \<Rightarrow> Inr (Array [])
           | Unparsable \<Rightarrow> Inl SyntaxError
           | NonArray \<Rightarrow> Inr NotArray
           | Stored os \<Rightarrow> Inr (Array os))"

text \<open>
  \<^verbatim>\<open>generateOrderId\<close>, on the client name and the date of the form; \<open>None\<close> is a date
  that is absent. \<^verbatim>\<open>orders.filter\<close> throws a TypeError on a value that is not an array.
\<close>

definition orderIdBase :: "string \<Rightarrow> int \<Rightarrow> string" where
  "orderIdBase name t =
     (let d = padStart 2 CHR ''0'' (String_int (getDate t));
          m = padStart 2 CHR ''0'' (String_int (getMonth t + 1));
          y = getFullYear t
      in removeSpaceRuns (toUpperCase name) @ d @ m @ String_int y @ ''Q'')"

definition generateOrderId ::
  "(io_step \<Rightarrow> bool) \<Rightarrow> string \<Rightarrow> int option \<Rightarrow> Storage \<Rightarrow> error + string" where
  "generateOrderId fails name dt st =
     (case dt of
        None \<Rightarrow> Inr []
      | Some t \<Rightarrow>
          if name = [] then Inr []
          else
            (let base = orderIdBase name t in
             case readOrders fails st of
               Inl e \<Rightarrow> Inl e
             | Inr NotArray \<Rightarrow> Inl TypeError
             | Inr (Array orders) \<Rightarrow>
                 (let same = filter (\<lambda>x. case raw_id x of None \<Rightarrow> False
                                          | Some i \<Rightarrow> startsWith i base) orders;
                      seq = padStart 3 CHR ''0'' (String_nat (length same + 1))
                  in Inr (base @ seq))))"

section \<open>The order form: generating and saving the PDF\<close>

text \<open>
  Modelled from the spec: \<^verbatim>\<open>toLocaleDateString('en-GB')\<close> is the platform's formatter, not
  code of the repository; the spec gives its output as \<^verbatim>\<open>DD/MM/YYYY\<close>.
\<close>

definition toLocaleDateString_enGB :: "int \<Rightarrow> string" where
  "toLocaleDateString_enGB t =
     padStart 2 CHR ''0'' (String_int (getDate t)) @ ''/'' @
     padStart 2 CHR ''0'' (String_int (getMonth t + 1)) @ ''/'' @
     padStart 4 CHR ''0'' (String_int (getFullYear t))"

text \<open>
  Modelled from the spec: \<^verbatim>\<open>toLocaleTimeString('en-US', ...)\<close> with a numeric hour, a
  two-digit minute and the 12-hour clock is the platform's formatter; the spec gives its
  output as \<^verbatim>\<open>h:mm AM/PM\<close>.
\<close>

definition toLocaleTimeString_enUS :: "int \<Rightarrow> string" where
  "toLocaleTimeString_enUS t =
     (let h = getHours t; h12 = (if h mod 12 = 0 then 12 else h mod 12)
      in String_int h12 @ '':'' @ padStart 2 CHR ''0'' (String_int (getMinutes t)) @ '' '' @
         (if h < 12 then ''AM'' else ''PM''))"

definition formatDateTime :: "OrderForm \<Rightarrow> string" where
  "formatDateTime f = toLocaleDateString_enGB (date f) @ '' at '' @ toLocaleTimeString_enUS (time f)"

text \<open>What a call leaves behind: its result, the message it surfaces, and the store.\<close>

record Outcome =
  result :: "string option"
  snackbarMessage :: "string option"
  storage :: Storage

definition newOrder :: "string \<Rightarrow> OrderForm \<Rightarrow> StoredOrder" where
  "newOrder finalUri f =
     \<lparr>raw_id = Some (orderId f), raw_clientName = Some (clientName f),
      raw_mobile = Some (mobile f), raw_address = Some (address f),
      raw_dateTime = Some (formatDateTime f), raw_orderBlocks = Some (orderBlocks f),
      raw_quotationAmount = Some (quotationAmount f), raw_pdfUri = Some finalUri\<rparr>"

text \<open>
  The body of the \<^verbatim>\<open>try\<close> block, step by step; the store it returns is the store at the
  moment of the failure or of the return. \<^verbatim>\<open>list.push\<close> throws a TypeError on a value
  that is not an array. The markup of the document is not modelled.
\<close>

definition saveSteps ::
  "(io_step \<Rightarrow> bool) \<Rightarrow> string \<Rightarrow> OrderForm \<Rightarrow> Storage \<Rightarrow> Storage \<times> (error + string)" where
  "saveSteps fails bbnDir f st =
     (if fails EnsureFolder then (st, Inl IOError)
      else if fails PrintToFile then (st, Inl IOError)
      else
        (let finalUri = bbnDir @ orderId f @ ''.pdf'' in
         if fails CopyFile then (st, Inl IOError)
         else
           (let order = newOrder finalUri f in
            case readOrders fails st of
              Inl e \<Rightarrow> (st, Inl e)
            | Inr NotArray \<Rightarrow> (st, Inl TypeError)
            | Inr (Array list) \<Rightarrow>
                if fails SetOrders then (st, Inl IOError)
                else
                  (let st1 = st\<lparr>orders_key := Stored (list @ [order])\<rparr> in
                   case saveClient fails f st1 of
                     (st2, Inl e) \<Rightarrow> (st2, Inl e)
                   | (st2, Inr _) \<Rightarrow> (st2, Inr finalUri)))))"

definition generateAndSavePDF ::
  "(io_step \<Rightarrow> bool) \<Rightarrow> string \<Rightarrow> OrderForm \<Rightarrow> Storage \<Rightarrow> Outcome" where
  "generateAndSavePDF fails bbnDir f st =
     (if orderId f = [] \<or> clientName f = [] \<or> mobile f = [] \<or> address f = [] \<or>
         quotationAmount f = []
      then \<lparr>result = None, snackbarMessage = Some ''Fill all required fields.'', storage = st\<rparr>
      else if length (mobile f) \<noteq> 10 \<or> isNaN (Number (mobile f))
      then \<lparr>result = None, snackbarMessage = Some ''Mobile must be 10 digits.'', storage = st\<rparr>
      else if list_all (\<lambda>b. trim (block_description b) = []) (orderBlocks f)
      then \<lparr>result = None, snackbarMessage = Some ''Add at least one menu item.'', storage = st\<rparr>
      else
        (case saveSteps fails bbnDir f st of
           (st', Inr finalUri) \<Rightarrow>
             \<lparr>result = Some finalUri, snackbarMessage = None, storage = st'\<rparr>
         | (st', Inl e) \<Rightarrow>
             \<lparr>result = None, snackbarMessage = Some ''Failed to generate PDF'', storage = st'\<rparr>))"

section \<open>The history screen: the date parser\<close>

text \<open>
  \<^verbatim>\<open>timePart.match(/(\d+):(\d+)\s*(AM|PM)/i)\<close>. At a given start the pattern can only
  match with each run of digits and of white space taken whole, since the character that
  must follow a run is not of the run's kind; the match is the one at the leftmost start.
  The result holds the three groups.
\<close>

definition timeMatchAt :: "string \<Rightarrow> (string \<times> string \<times> string) option" where
  "timeMatchAt s =
     (let h = takeWhile isDigit s; r = dropWhile isDigit s in
      if h = [] \<or> r = [] \<or> hd r \<noteq> CHR '':'' then None
      else
        (let mi = takeWhile isDigit (tl r);
             r3 = dropWhile isSpace (dropWhile isDigit (tl r));
             ampm = take 2 r3
         in if mi \<noteq> [] \<and> (toUpperCase ampm = ''AM'' \<or> toUpperCase ampm = ''PM'')
            then Some (h, mi, ampm)
            else None))"

fun timeMatch :: "string \<Rightarrow> (string \<times> string \<times> string) option" where
  "timeMatch [] = None"
| "timeMatch (c # cs) =
     (case timeMatchAt (c # cs) of Some g \<Rightarrow> Some g | None \<Rightarrow> timeMatch cs)"

text \<open>
  \<^verbatim>\<open>parseDate\<close>; the first argument is what \<^verbatim>\<open>new Date()\<close> gives, the current moment.
  The source's check that the hour and the minute are numbers cannot fail, as
  \<^verbatim>\<open>parseInt\<close> reads them from non-empty runs of digits, and has no branch here.
\<close>

definition parseDate :: "jsdate \<Rightarrow> string \<Rightarrow> jsdate" where
  "parseDate now s =
     (if s = [] then now
      else
        (let parts = split '' at '' s in
         if length parts \<noteq> 2 then now
         else
           (let datePart = parts ! 0; timePart = parts ! 1;
                nums = map Number (split ''/'' datePart)
            in if length nums \<noteq> 3 \<or> list_ex isNaN nums then now
               else
                 (let d = nums ! 0; m = nums ! 1; y = nums ! 2 in
                  case timeMatch timePart of
                    None \<Rightarrow> now
                  | Some (h, mi, ampm) \<Rightarrow>
                      (let hour = parseInt h; minute = parseInt mi;
                           hour1 = (if toUpperCase ampm = ''PM'' \<and> hour \<noteq> 12 then hour + 12
                                    else hour);
                           hour2 = (if toUpperCase ampm = ''AM'' \<and> hour1 = 12 then 0 else hour1)
                       in newDate y (minusOne m) d hour2 minute)))))"

section \<open>The history screen: loading the orders\<close>

record Order =
  order_id :: string
  order_clientName :: string
  order_mobile :: string
  order_address :: string
  order_dateTime :: string
  order_orderBlocks :: "OrderBlock list"
  order_quotationAmount :: string
  order_pdfUri :: string

record Section =
  section_title :: string
  section_data :: "Order list"
  section_count :: nat

text \<open>A field of a stored entry is truthy when it is there and not the empty string.\<close>

definition truthy :: "string option \<Rightarrow> bool" where
  "truthy v = (case v of None \<Rightarrow> False | Some s \<Rightarrow> s \<noteq> [])"

definition orElse :: "'a option \<Rightarrow> 'a \<Rightarrow> 'a" where
  "orElse v d = (case v of None \<Rightarrow> d | Some x \<Rightarrow> x)"

text \<open>
  Step 1: keep the valid entries, with the defaults of the missing fields. The entries of
  the array are objects, so the source's guard against a null entry has no branch here;
  an entry the filter keeps has its id, date and time, and path.
\<close>

definition normalize :: "StoredOrder \<Rightarrow> Order" where
  "normalize x =
     \<lparr>order_id = orElse (raw_id x) [],
      order_clientName = orElse (raw_clientName x) [],
      order_mobile = orElse (raw_mobile x) [],
      order_address = orElse (raw_address x) [],
      order_dateTime = orElse (raw_dateTime x) [],
      order_orderBlocks = orElse (raw_orderBlocks x) [],
      order_quotationAmount = orElse (raw_quotationAmount x) ''0'',
      order_pdfUri = orElse (raw_pdfUri x) []\<rparr>"

definition keepValid :: "StoredOrder list \<Rightarrow> Order list" where
  "keepValid orders =
     map normalize
       (filter (\<lambda>x. truthy (raw_id x) \<and> truthy (raw_dateTime x) \<and> truthy (raw_pdfUri x)) orders)"

text \<open>Step 2: the loop over \<^verbatim>\<open>valid\<close> with the set \<^verbatim>\<open>seen\<close> and the array \<^verbatim>\<open>deduped\<close>.\<close>

fun dedupeLoop :: "string set \<Rightarrow> Order list \<Rightarrow> Order list \<Rightarrow> Order list" where
  "dedupeLoop seen deduped [] = deduped"
| "dedupeLoop seen deduped (x # xs) =
     (if order_id x \<notin> seen then dedupeLoop (insert (order_id x) seen) (deduped @ [x]) xs
      else dedupeLoop seen deduped xs)"

definition dedupe :: "Order list \<Rightarrow> Order list" where
  "dedupe valid = dedupeLoop {} [] valid"

text \<open>What \<^verbatim>\<open>JSON.stringify\<close> writes for an order, as it is read back.\<close>

definition toStored :: "Order \<Rightarrow> StoredOrder" where
  "toStored x =
     \<lparr>raw_id = Some (order_id x), raw_clientName = Some (order_clientName x),
      raw_mobile = Some (order_mobile x), raw_address = Some (order_address x),
      raw_dateTime = Some (order_dateTime x), raw_orderBlocks = Some (order_orderBlocks x),
      raw_quotationAmount = Some (order_quotationAmount x), raw_pdfUri = Some (order_pdfUri x)\<rparr>"

text \<open>
  Whether \<^verbatim>\<open>parseDate\<close> returns early on a string, with the current moment: the string
  is empty, or has not two parts, or its date part has not three numbers, or its time part
  has no match.
\<close>

definition fallsBack :: "string \<Rightarrow> bool" where
  "fallsBack s =
     (s = [] \<or> length (split '' at '' s) \<noteq> 2 \<or>
      length (split ''/'' (split '' at '' s ! 0)) \<noteq> 3 \<or>
      list_ex isNaN (map Number (split ''/'' (split '' at '' s ! 0))) \<or>
      timeMatch (split '' at '' s ! 1) = None)"

text \<open>
  Step 4: the comparator of the sort. Each call parses both strings again, \<^verbatim>\<open>b\<close> first,
  and each parse that returns early reads the clock: \<open>nowB\<close> and \<open>nowA\<close> are the times
  of the two readings. The difference of two times is NaN when a date is invalid; the value 0 stands
  for it and for a difference that the model does not compute.
\<close>

definition compareNewestFirst :: "int \<Rightarrow> int \<Rightarrow> Order \<Rightarrow> Order \<Rightarrow> int" where
  "compareNewestFirst nowB nowA a b =
     (case (getTime (parseDate (Date nowB) (order_dateTime b)),
            getTime (parseDate (Date nowA) (order_dateTime a))) of
        (Some tb, Some ta) \<Rightarrow> tb - ta
      | _ \<Rightarrow> 0)"

fun insertBy :: "('a \<Rightarrow> 'a \<Rightarrow> int) \<Rightarrow> 'a \<Rightarrow> 'a list \<Rightarrow> 'a list" where
  "insertBy cmp x [] = [x]"
| "insertBy cmp x (y # ys) = (if cmp x y \<le> 0 then x # y # ys else y # insertBy cmp x ys)"

definition sortBy :: "('a \<Rightarrow> 'a \<Rightarrow> int) \<Rightarrow> 'a list \<Rightarrow> 'a list" where
  "sortBy cmp xs = foldr (insertBy cmp) xs []"

text \<open>
  An order whose date and time does not depend on the clock and is a time of the model.
\<close>

definition hasTime :: "Order \<Rightarrow> bool" where
  "hasTime x =
     (\<not> fallsBack (order_dateTime x) \<and> getTime (parseDate (Date 0) (order_dateTime x)) \<noteq> None)"

text \<open>
  \<^verbatim>\<open>deduped.sort(...)\<close>. \<^verbatim>\<open>Array.prototype.sort\<close> is stable, and it leaves an array
  of at most one element as it is. When every order has a time, the comparator is a
  consistent one and no call reads the clock (the model passes 0 for the readings), and
  every stable sort gives the same array: the model inserts each element before the first
  one it does not come after. In any other
  case the calls the engine makes, the clock readings and the order of the result are the
  engine's, and the model gives \<open>None\<close>.
\<close>

definition sortNewestFirst :: "Order list \<Rightarrow> Order list option" where
  "sortNewestFirst xs =
     (if length xs \<le> 1 then Some xs
      else if list_all hasTime xs
      then Some (sortBy (compareNewestFirst 0 0) xs)
      else None)"

text \<open>
  Modelled from the spec: \<^verbatim>\<open>toLocaleString('default', { month: 'long' })\<close> is the platform's
  formatter; the spec gives the label as the month's name and the year.
\<close>

definition monthName :: "int \<Rightarrow> string" where
  "monthName m =
     [''January'', ''February'', ''March'', ''April'', ''May'', ''June'', ''July'', ''August'',
      ''September'', ''October'', ''November'', ''December''] ! nat m"

text \<open>
  The key of a group. For an invalid date the formatter gives \<^verbatim>\<open>Invalid Date\<close> and the
  year is NaN. The key of a date that the model does not compute is not computed either:
  the empty string stands for it, and the load does not use it.
\<close>

definition groupKey :: "jsdate \<Rightarrow> string" where
  "groupKey dt =
     (case dt of
        InvalidDate \<Rightarrow> ''Invalid Date NaN''
      | Date t \<Rightarrow> monthName (getMonth t) @ '' '' @ String_int (getFullYear t)
      | EngineDate \<Rightarrow> [])"

text \<open>
  Step 5: the object \<^verbatim>\<open>groups\<close> as an association list in the order its keys were
  created, which is the order \<^verbatim>\<open>Object.entries\<close> lists keys that are not array indices.
  The loop parses each order once more; \<open>clock i\<close> is the time that \<^verbatim>\<open>new Date()\<close>
  has during the parse of the order at index \<open>i\<close>.
\<close>

fun addToGroup :: "string \<Rightarrow> Order \<Rightarrow> (string \<times> Order list) list \<Rightarrow> (string \<times> Order list) list" where
  "addToGroup key x [] = [(key, [x])]"
| "addToGroup key x ((k, xs) # gs) =
     (if k = key then (k, xs @ [x]) # gs else (k, xs) # addToGroup key x gs)"

definition groupOrders :: "(nat \<Rightarrow> int) \<Rightarrow> Order list \<Rightarrow> (string \<times> Order list) list" where
  "groupOrders clock xs =
     foldl (\<lambda>gs (i, x). addToGroup (groupKey (parseDate (Date (clock i)) (order_dateTime x))) x gs)
       [] (enumerate 0 xs)"

text \<open>Whether the key of every order is one the model computes.\<close>

definition keysComputed :: "(nat \<Rightarrow> int) \<Rightarrow> Order list \<Rightarrow> bool" where
  "keysComputed clock xs =
     list_all (\<lambda>(i, x). parseDate (Date (clock i)) (order_dateTime x) \<noteq> EngineDate)
       (enumerate 0 xs)"

definition toSections :: "(string \<times> Order list) list \<Rightarrow> Section list" where
  "toSections gs =
     map (\<lambda>(title, data). \<lparr>section_title = title, section_data = data,
                             section_count = length data\<rparr>) gs"

text \<open>
  What the effect does to the sections of the screen: it leaves them as they were (it
  returns or fails before setting them), it sets them to a list that the model computes, or
  it sets them to a list that is the engine's.
\<close>

datatype sections = NotSet | SetTo "Section list" | SetByEngine

text \<open>
  The effect of the screen: the store, whether the cleaned array was written back, and
  the sections. \<^verbatim>\<open>orders.filter\<close> throws a TypeError on a value that is not an array;
  every error is caught and logged. \<open>clock\<close> gives the readings of the current moment
  during the grouping.
\<close>

record HistoryOutcome =
  history_storage :: Storage
  history_wrote :: bool
  history_sections :: sections

definition loadHistory :: "(io_step \<Rightarrow> bool) \<Rightarrow> (nat \<Rightarrow> int) \<Rightarrow> Storage \<Rightarrow> HistoryOutcome" where
  "loadHistory fails clock st =
     (if fails GetOrders
      then \<lparr>history_storage = st, history_wrote = False, history_sections = NotSet\<rparr>
      else
        (case orders_key st of
           Absent \<Rightarrow> \<lparr>history_storage = st, history_wrote = False, history_sections = NotSet\<rparr>
         | Unparsable \<Rightarrow> \<lparr>history_storage = st, history_wrote = False, history_sections = NotSet\<rparr>
         | NonArray \<Rightarrow> \<lparr>history_storage = st, history_wrote = False, history_sections = NotSet\<rparr>
         | Stored orders \<Rightarrow>
             (let valid = keepValid orders; deduped = dedupe valid in
              if length deduped \<noteq> length valid \<and> fails SetOrders
              then \<lparr>history_storage = st, history_wrote = False, history_sections = NotSet\<rparr>
              else
                (let wrote = (length deduped \<noteq> length valid);
                     st' = (if wrote then st\<lparr>orders_key := Stored (map toStored deduped)\<rparr> else st)
                 in \<lparr>history_storage = st', history_wrote = wrote,
                     history_sections =
                       (case sortNewestFirst deduped of
                          None \<Rightarrow> SetByEngine
                        | Some ordered \<Rightarrow>
                            if keysComputed clock ordered
                            then SetTo (toSections (groupOrders clock ordered))
                            else SetByEngine)\<rparr>))))"

section \<open>Notions used to state the properties\<close>

text \<open>
  The block list after one block was added to the initial one, and after another was added
  at the same reading of the clock.
\<close>

definition twoBlocks :: "OrderBlock list" where
  "twoBlocks = addOrderBlock 1700000000000 initialBlocks"

definition threeBlocks :: "OrderBlock list" where
  "threeBlocks = addOrderBlock 1700000000000 twoBlocks"

text \<open>The record that \<^verbatim>\<open>saveClient\<close> writes for a form.\<close>

definition clientOf :: "OrderForm \<Rightarrow> Client" where
  "clientOf f =
     \<lparr>client_mobile = mobile f, client_name = clientName f, client_address = address f,
      client_notes = block_notes (hd (orderBlocks f))\<rparr>"

text \<open>The invariant of the clients collection: at most one record for a mobile.\<close>

definition clients_unique :: "Client list \<Rightarrow> bool" where
  "clients_unique cs = distinct (map client_mobile cs)"

text \<open>The \<open>k\<close> low decimal digits of \<open>n\<close>, most significant first: \<^verbatim>\<open>DD\<close> is \<open>fixedDigits 2\<close>.\<close>

fun fixedDigits :: "nat \<Rightarrow> nat \<Rightarrow> string" where
  "fixedDigits 0 n = []"
| "fixedDigits (Suc k) n = fixedDigits k (n div 10) @ [digit_char (n mod 10)]"

text \<open>
  A store and two forms for the same mobile, to run the operations on, and a store that
  holds two clients, the second one with the mobile of the forms.
\<close>

definition noFault :: "io_step \<Rightarrow> bool" where
  "noFault step = False"

definition emptyStore :: Storage where
  "emptyStore = \<lparr>orders_key = Absent, clients_key = Absent\<rparr>"

definition formA :: OrderForm where
  "formA =
     \<lparr>orderId = ''TESTUSER05032025Q001'', clientName = ''Test User'', mobile = ''9876543210'',
      address = ''12 Park Road'', date = 1741132800000, time = 1741185000000,
      orderBlocks = [\<lparr>block_id = ''1'', block_description = ''Paneer tikka'',
                       block_notes = ''no onion'', block_guests = ''50''\<rparr>],
      quotationAmount = ''25000''\<rparr>"

definition formB :: OrderForm where
  "formB = formA\<lparr>orderId := ''TESTUSER06032025Q001'', clientName := ''Test User Sr'',
                  address := ''7 Lake View'', date := 1741219200000\<rparr>"

definition otherClient :: Client where
  "otherClient =
     \<lparr>client_mobile = ''9123456780'', client_name = ''Meera'', client_address = ''3 Hill Street'',
      client_notes = ''jain food''\<rparr>"

definition oldClient :: Client where
  "oldClient =
     \<lparr>client_mobile = ''9876543210'', client_name = ''T. User'', client_address = ''1 Old Lane'',
      client_notes = []\<rparr>"

definition clientsStore :: Storage where
  "clientsStore = \<lparr>orders_key = Absent, clients_key = Stored [otherClient, oldClient]\<rparr>"

text \<open>
  The base of a quotation id as the specification spells it: the name without its white
  space, every character in its upper-case form, then the day, the month, the year and Q.
  The upper-case form of a letter a to z, or of a Latin-1 letter from U+00E0 to U+00FE
  other than the division sign, is the character 32 below it; that of the sharp s is SS.
\<close>

definition upperForm :: "char \<Rightarrow> string" where
  "upperForm c =
     (let n = (of_char c :: nat) in
      if (97 \<le> n \<and> n \<le> 122) \<or> (224 \<le> n \<and> n \<le> 254 \<and> n \<noteq> 247) then [char_of (n - 32)]
      else if n = 223 then ''SS''
      else [c])"

definition quotationBase :: "string \<Rightarrow> int \<Rightarrow> string" where
  "quotationBase name t =
     concat (map upperForm (filter (\<lambda>c. \<not> isSpace c) name)) @ fixedDigits 2 (nat (getDate t)) @
     fixedDigits 2 (nat (getMonth t + 1)) @ String_int (getFullYear t) @ ''Q''"

text \<open>The number of ids in a stored array that start with a base.\<close>

definition idsStartingWith :: "string \<Rightarrow> StoredOrder list \<Rightarrow> nat" where
  "idsStartingWith base orders = length (filter (prefix base) (List.map_filter raw_id orders))"

text \<open>A form that passes the three checks of the submission.\<close>

definition passesValidation :: "OrderForm \<Rightarrow> bool" where
  "passesValidation f =
     (orderId f \<noteq> [] \<and> clientName f \<noteq> [] \<and> mobile f \<noteq> [] \<and> address f \<noteq> [] \<and>
      quotationAmount f \<noteq> [] \<and> length (mobile f) = 10 \<and> \<not> isNaN (Number (mobile f)) \<and>
      \<not> list_all (\<lambda>b. trim (block_description b) = []) (orderBlocks f))"

text \<open>A run in which only the write of the clients fails, and the app's folder.\<close>

definition clientWriteFault :: "io_step \<Rightarrow> bool" where
  "clientWriteFault step = (step = SetClients)"

definition clientReadFault :: "io_step \<Rightarrow> bool" where
  "clientReadFault step = (step = GetClients)"

definition bbnDir :: string where
  "bbnDir = ''file:///data/BBN_Quotations/''"

text \<open>The array of orders that a store holds, and a clock for the examples.\<close>

definition ordersOf :: "Storage \<Rightarrow> StoredOrder list" where
  "ordersOf st = (case orders_key st of Stored os \<Rightarrow> os | _ \<Rightarrow> [])"

definition atLoad :: "nat \<Rightarrow> int" where
  "atLoad i = 1762128000000 + int i"

text \<open>A stored entry that has a non-empty id, date and time, and path of the PDF.\<close>

definition complete :: "StoredOrder \<Rightarrow> bool" where
  "complete x =
     (\<exists>i d p. raw_id x = Some i \<and> i \<noteq> [] \<and> raw_dateTime x = Some d \<and> d \<noteq> [] \<and>
        raw_pdfUri x = Some p \<and> p \<noteq> [])"

text \<open>The first occurrences of the elements of a list, in the order of the list.\<close>

fun firstSeen :: "'a set \<Rightarrow> 'a list \<Rightarrow> 'a list" where
  "firstSeen seen [] = []"
| "firstSeen seen (x # xs) =
     (if x \<in> seen then firstSeen seen xs else x # firstSeen (insert x seen) xs)"

text \<open>The loop of the deduplication without its accumulator.\<close>

fun firstById :: "string set \<Rightarrow> Order list \<Rightarrow> Order list" where
  "firstById seen [] = []"
| "firstById seen (x # xs) =
     (if order_id x \<in> seen then firstById seen xs
      else x # firstById (insert (order_id x) seen) xs)"

text \<open>A stored array with a repeated id and an entry without the path of its PDF.\<close>

definition entryX1 :: StoredOrder where
  "entryX1 =
     \<lparr>raw_id = Some ''X1'', raw_clientName = Some ''Asha'', raw_mobile = Some ''9876543210'',
      raw_address = Some ''12 Park Road'', raw_dateTime = Some ''05/03/2025 at 2:30 PM'',
      raw_orderBlocks = Some [], raw_quotationAmount = Some ''25000'',
      raw_pdfUri = Some ''file:///data/BBN_Quotations/X1.pdf''\<rparr>"

definition entryX1again :: StoredOrder where
  "entryX1again = entryX1\<lparr>raw_clientName := Some ''Asha Rao''\<rparr>"

definition entryNoPdf :: StoredOrder where
  "entryNoPdf = entryX1\<lparr>raw_id := Some ''X2'', raw_pdfUri := None\<rparr>"

text \<open>
  A stored array with two ids of Test User on 5 March 2025, an id of another client and an
  entry without id, and one without the two ids of Test User.
\<close>

definition quotedOrders :: "StoredOrder list" where
  "quotedOrders =
     [entryX1\<lparr>raw_id := Some ''TESTUSER05032025Q001''\<rparr>,
      entryX1\<lparr>raw_id := Some ''RAJKUMAR05032025Q001''\<rparr>,
      entryX1\<lparr>raw_id := None\<rparr>,
      entryX1\<lparr>raw_id := Some ''TESTUSER05032025Q002''\<rparr>]"

definition otherOrders :: "StoredOrder list" where
  "otherOrders =
     [entryX1\<lparr>raw_id := Some ''RAJKUMAR05032025Q001''\<rparr>, entryX1\<lparr>raw_id := None\<rparr>]"

definition storeOf :: "StoredOrder list \<Rightarrow> Storage" where
  "storeOf orders = \<lparr>orders_key = Stored orders, clients_key = Absent\<rparr>"

definition dirtyStore :: Storage where
  "dirtyStore = \<lparr>orders_key = Stored [entryX1, entryNoPdf, entryX1again], clients_key = Absent\<rparr>"

text \<open>The hour of the 24-hour clock for an hour read with \<^verbatim>\<open>AM\<close> or \<^verbatim>\<open>PM\<close>.\<close>

definition hour24 :: "string \<Rightarrow> int \<Rightarrow> int" where
  "hour24 ampm h =
     (if ampm = ''PM'' \<and> h \<noteq> 12 then h + 12 else if ampm = ''AM'' \<and> h = 12 then 0 else h)"






text \<open>The hour of the 12-hour clock and the half of the day, for an hour from 0 to 23.\<close>

definition hour12 :: "int \<Rightarrow> int" where
  "hour12 h = (if h mod 12 = 0 then 12 else h mod 12)"

definition meridiem :: "int \<Rightarrow> string" where
  "meridiem h = (if h < 12 then ''AM'' else ''PM'')"

section \<open>Properties of the order blocks\<close>

lemma String_int_clock: "String_int 1700000000000 = ''1700000000000''"
  by (simp add: String_int_def String_nat.simps digit_char_def)

lemma twoBlocks_eval: "twoBlocks = [hd initialBlocks, newBlock 1700000000000]"
  by (simp add: twoBlocks_def addOrderBlock_def initialBlocks_def)

lemma threeBlocks_eval:
  "threeBlocks = [hd initialBlocks, newBlock 1700000000000, newBlock 1700000000000]"
  by (simp add: threeBlocks_def twoBlocks_eval addOrderBlock_def)

lemma block_ids_eval:
  "block_id (hd initialBlocks) = ''1''" "block_id (newBlock 1700000000000) = ''1700000000000''"
  by (simp_all add: initialBlocks_def newBlock_def String_int_clock)

text \<open>
  Claim C9. Adding a block and updating a field never empty the block list, removing is
  a no-op on a list of one block, and after a second block is added to the initial one,
  removing the original leaves exactly the new block. The list can still become empty. The
  id of a new block is the reading of the clock in milliseconds, so two blocks added at one
  reading have one id, and removing that id removes both: from the initial block, two
  additions at one reading, the removal of the original and the removal of the new id leave
  no block. And the guard of a removal reads the list of the render that made the handler:
  two removals handled from one render of two blocks both pass it and leave no block.
\<close>

theorem order_blocks_can_become_empty:
  "addOrderBlock now prev \<noteq> [] \<and>
   length (updateBlock i field v prev) = length prev \<and>
   removeBlock i [b] [b] = [b] \<and>
   removeBlock ''1'' initialBlocks initialBlocks = initialBlocks \<and>
   removeBlock ''1'' twoBlocks twoBlocks = [newBlock 1700000000000] \<and>
   map block_id threeBlocks = [''1'', ''1700000000000'', ''1700000000000''] \<and>
   removeBlock ''1'' threeBlocks threeBlocks = [newBlock 1700000000000, newBlock 1700000000000] \<and>
   removeBlock ''1700000000000'' (removeBlock ''1'' threeBlocks threeBlocks)
     (removeBlock ''1'' threeBlocks threeBlocks) = [] \<and>
   removeBlock ''1700000000000'' twoBlocks (removeBlock ''1'' twoBlocks twoBlocks) = []"
proof -
  have 1: "addOrderBlock now prev \<noteq> []"
    by (simp add: addOrderBlock_def)
  have 2: "length (updateBlock i field v prev) = length prev"
    by (simp add: updateBlock_def)
  have 3: "removeBlock i [b] [b] = [b]"
    by (simp add: removeBlock_def)
  have 4: "removeBlock ''1'' initialBlocks initialBlocks = initialBlocks"
    by (simp add: removeBlock_def initialBlocks_def)
  have 5: "removeBlock ''1'' twoBlocks twoBlocks = [newBlock 1700000000000]"
    by (simp add: removeBlock_def twoBlocks_eval block_ids_eval)
  have 6: "map block_id threeBlocks = [''1'', ''1700000000000'', ''1700000000000'']"
    by (simp add: threeBlocks_eval block_ids_eval)
  have 7: "removeBlock ''1'' threeBlocks threeBlocks =
      [newBlock 1700000000000, newBlock 1700000000000]"
    by (simp add: removeBlock_def threeBlocks_eval block_ids_eval)
  have 8: "removeBlock ''1700000000000'' (removeBlock ''1'' threeBlocks threeBlocks)
      (removeBlock ''1'' threeBlocks threeBlocks) = []"
    unfolding 7 by (simp add: removeBlock_def block_ids_eval)
  have 9: "removeBlock ''1700000000000'' twoBlocks (removeBlock ''1'' twoBlocks twoBlocks) = []"
    unfolding 5 by (simp add: removeBlock_def twoBlocks_eval block_ids_eval)
  show ?thesis
    by (intro conjI 1 2 3 4 5 6 7 8 9)
qed

section \<open>Properties of the calendar\<close>

lemma div_bounds:
  fixes k n :: int
  assumes "0 < n"
  shows "n * (k div n) \<le> k" and "k < n * (k div n) + n"
proof -
  have e: "k = n * (k div n) + k mod n" by simp
  have "0 \<le> k mod n" "k mod n < n" using assms by simp_all
  with e show "n * (k div n) \<le> k" and "k < n * (k div n) + n" by linarith+
qed

lemma div_step:
  fixes k n :: int
  assumes "0 < n"
  shows "(k + 1) div n = k div n + (if (k + 1) mod n = 0 then 1 else 0)"
proof -
  define q where "q = k div n"
  define r where "r = k mod n"
  have k: "k = q * n + r" and r: "0 \<le> r" "r < n"
    using assms by (simp_all add: q_def r_def)
  show ?thesis
  proof (cases "r + 1 = n")
    case True
    then have "k + 1 = (q + 1) * n" using k by (simp add: algebra_simps)
    then show ?thesis using assms by (simp add: q_def)
  next
    case False
    with r have r1: "0 \<le> r + 1" "r + 1 < n" by linarith+
    have e: "k + 1 = n * q + (r + 1)" using k by simp
    have d: "(k + 1) div n = q"
      by (rule int_div_pos_eq [OF e r1])
    have m: "(k + 1) mod n = r + 1"
      by (rule int_mod_pos_eq [OF e r1])
    from m r have "(k + 1) mod n \<noteq> 0" by linarith
    with d show ?thesis by (simp add: q_def)
  qed
qed

lemma DayFromYear_Suc: "DayFromYear (y + 1) = DayFromYear y + DaysInYear y"
proof -
  have a: "(y + 1 - 1969) div 4 = (y - 1969) div 4 + (if y mod 4 = 0 then 1 else 0)"
  proof -
    have "(y - 1969 + 1) mod 4 = y mod 4"
      using mod_diff_right_eq [of y 1968 4] by simp
    with div_step [of 4 "y - 1969"] show ?thesis by (simp add: algebra_simps)
  qed
  have b: "(y + 1 - 1901) div 100 = (y - 1901) div 100 + (if y mod 100 = 0 then 1 else 0)"
  proof -
    have "(y - 1901 + 1) mod 100 = y mod 100"
      using mod_diff_right_eq [of y 1900 100] by simp
    with div_step [of 100 "y - 1901"] show ?thesis by (simp add: algebra_simps)
  qed
  have c: "(y + 1 - 1601) div 400 = (y - 1601) div 400 + (if y mod 400 = 0 then 1 else 0)"
  proof -
    have "(y - 1601 + 1) mod 400 = y mod 400"
      using mod_diff_right_eq [of y 1600 400] by simp
    with div_step [of 400 "y - 1601"] show ?thesis by (simp add: algebra_simps)
  qed
  have d: "y mod 400 = 0 \<Longrightarrow> y mod 100 = 0" "y mod 100 = 0 \<Longrightarrow> y mod 4 = 0"
    using mod_mod_cancel [of 100 400 y] mod_mod_cancel [of 4 100 y] by simp_all
  show ?thesis
    unfolding DayFromYear_def DaysInYear_def InLeapYear_def a b c
    using d by auto
qed

lemma YearFromDay_bracket:
  "DayFromYear (YearFromDay d) \<le> d \<and> d < DayFromYear (YearFromDay d + 1)"
proof -
  define q where "q = (d * 400) div 146097"
  have q: "146097 * q \<le> d * 400" "d * 400 < 146097 * q + 146097"
    unfolding q_def by (rule div_bounds, simp)+
  define a where "a = q div 4"
  define b where "b = (q + 68) div 100"
  define c where "c = (q + 368) div 400"
  have a: "4 * a \<le> q" "q < 4 * a + 4"
    unfolding a_def by (rule div_bounds, simp)+
  have b: "100 * b \<le> q + 68" "q + 68 < 100 * b + 100"
    unfolding b_def by (rule div_bounds, simp)+
  have c: "400 * c \<le> q + 368" "q + 368 < 400 * c + 400"
    unfolding c_def by (rule div_bounds, simp)+
  have lo_eq: "DayFromYear (1970 + q - 1) = 365 * q - 365 + a - b + c"
    by (simp add: DayFromYear_def a_def b_def c_def add.commute)
  have lo: "DayFromYear (1970 + q - 1) \<le> d"
    unfolding lo_eq using q a b c by linarith
  define a' where "a' = (q + 3) div 4"
  define b' where "b' = (q + 71) div 100"
  define c' where "c' = (q + 371) div 400"
  have a': "4 * a' \<le> q + 3" "q + 3 < 4 * a' + 4"
    unfolding a'_def by (rule div_bounds, simp)+
  have b': "100 * b' \<le> q + 71" "q + 71 < 100 * b' + 100"
    unfolding b'_def by (rule div_bounds, simp)+
  have c': "400 * c' \<le> q + 371" "q + 371 < 400 * c' + 400"
    unfolding c'_def by (rule div_bounds, simp)+
  have hi_eq: "DayFromYear (1970 + q + 1 + 1) = 365 * q + 730 + a' - b' + c'"
    by (simp add: DayFromYear_def a'_def b'_def c'_def add.commute)
  have hi: "d < DayFromYear (1970 + q + 1 + 1)"
    unfolding hi_eq using q a' b' c' by linarith
  show ?thesis
    using lo hi by (simp add: YearFromDay_def Let_def q_def [symmetric])
qed

lemma DayFromYear_mono: "y \<le> z \<Longrightarrow> DayFromYear y \<le> DayFromYear z"
proof -
  have step: "DayFromYear y \<le> DayFromYear (y + int n)" for n
  proof (induction n)
    case 0
    then show ?case by simp
  next
    case (Suc n)
    have "DayFromYear (y + int n) \<le> DayFromYear (y + int n + 1)"
      by (simp add: DayFromYear_Suc DaysInYear_def)
    with Suc show ?case by (simp add: ac_simps)
  qed
  assume "y \<le> z"
  then have "z = y + int (nat (z - y))" by simp
  with step [of "nat (z - y)"] show ?thesis by simp
qed

text \<open>The year found is the only one whose days include the day number.\<close>

lemma YearFromDay_unique:
  assumes "DayFromYear y \<le> d" and "d < DayFromYear (y + 1)"
  shows "YearFromDay d = y"
proof (rule ccontr)
  assume ne: "YearFromDay d \<noteq> y"
  from YearFromDay_bracket [of d]
  have br: "DayFromYear (YearFromDay d) \<le> d" "d < DayFromYear (YearFromDay d + 1)" by simp_all
  from ne consider "YearFromDay d + 1 \<le> y" | "y + 1 \<le> YearFromDay d" by linarith
  then show False
  proof cases
    case 1
    from DayFromYear_mono [OF 1] br assms show False by linarith
  next
    case 2
    from DayFromYear_mono [OF 2] br assms show False by linarith
  qed
qed

lemma DayWithinYear_range:
  "0 \<le> DayWithinYear d \<and> DayWithinYear d < DaysInYear (YearFromDay d)"
  using YearFromDay_bracket [of d] DayFromYear_Suc [of "YearFromDay d"]
  by (simp add: DayWithinYear_def)

lemma MonthFromDay_range: "0 \<le> MonthFromDay d \<and> MonthFromDay d \<le> 11"
  by (simp add: MonthFromDay_def Let_def)

lemma DateFromDay_range: "1 \<le> DateFromDay d \<and> DateFromDay d \<le> 31"
proof (cases "InLeapYear (YearFromDay d)")
  case True
  with DayWithinYear_range [of d] show ?thesis
    by (simp add: DateFromDay_def MonthFromDay_def daysBeforeMonth_def DaysInYear_def Let_def)
next
  case False
  with DayWithinYear_range [of d] show ?thesis
    by (simp add: DateFromDay_def MonthFromDay_def daysBeforeMonth_def DaysInYear_def Let_def)
qed

text \<open>Building the day number back from the three getters gives the day number.\<close>

lemma MakeDay_getters:
  "MakeDay (YearFromDay d) (MonthFromDay d) (DateFromDay d) = d"
proof -
  have m: "MonthFromDay d div 12 = 0" "MonthFromDay d mod 12 = MonthFromDay d"
    using MonthFromDay_range [of d] by simp_all
  show ?thesis
    by (simp add: MakeDay_def Let_def m DateFromDay_def DayWithinYear_def)
qed

lemma getDate_range: "1 \<le> getDate t \<and> getDate t \<le> 31"
  by (simp add: getDate_def DateFromDay_range)

lemma getMonth_range: "0 \<le> getMonth t \<and> getMonth t \<le> 11"
  by (simp add: getMonth_def MonthFromDay_range)

lemma getHours_range: "0 \<le> getHours t \<and> getHours t \<le> 23"
  by (simp add: getHours_def)

lemma getMinutes_range: "0 \<le> getMinutes t \<and> getMinutes t \<le> 59"
  by (simp add: getMinutes_def)

section \<open>Properties of the client upsert\<close>

lemma assignExisting_map:
  "distinct (map client_mobile cs) \<Longrightarrow>
   assignExisting m new cs = map (\<lambda>c. if client_mobile c = m then new else c) cs"
proof (induction cs)
  case Nil
  then show ?case by simp
next
  case (Cons c cs)
  show ?case
  proof (cases "client_mobile c = m")
    case True
    with Cons.prems have "\<forall>x\<in>set cs. client_mobile x \<noteq> m" by (metis distinct.simps(2) imageI list.simps(9) list.set_map)
    then have "map (\<lambda>c. if client_mobile c = m then new else c) cs = cs"
      by (induction cs) auto
    with True show ?thesis by simp
  next
    case False
    with Cons show ?thesis by simp
  qed
qed

lemma upsert_map_mobile:
  "client_mobile new = m \<Longrightarrow>
   map client_mobile (map (\<lambda>c. if client_mobile c = m then new else c) cs) = map client_mobile cs"
  by (induction cs) auto

lemma upsert_filter:
  "distinct (map client_mobile cs) \<Longrightarrow> m \<in> client_mobile ` set cs \<Longrightarrow> client_mobile new = m \<Longrightarrow>
   filter (\<lambda>c. client_mobile c = m) (map (\<lambda>c. if client_mobile c = m then new else c) cs) = [new]"
proof (induction cs)
  case Nil
  then show ?case by simp
next
  case (Cons c cs)
  show ?case
  proof (cases "client_mobile c = m")
    case True
    with Cons.prems have "\<forall>x\<in>set cs. client_mobile x \<noteq> m" by (metis distinct.simps(2) imageI list.simps(9) list.set_map)
    then have "filter (\<lambda>c. client_mobile c = m) (map (\<lambda>c. if client_mobile c = m then new else c) cs) = []"
      by (induction cs) auto
    with True Cons.prems show ?thesis by simp
  next
    case False
    with Cons show ?thesis by auto
  qed
qed

text \<open>The clients after an upsert into the list \<open>cs\<close>, as the specification words it.\<close>

lemma saveClient_ok:
  assumes "mobile f \<noteq> []" "clientName f \<noteq> []" "orderBlocks f \<noteq> []"
    and "\<not> fails SetClients"
    and "loadClients fails st = Array cs"
    and "clients_unique cs"
  shows "saveClient fails f st =
           (st\<lparr>clients_key := Stored
               (if mobile f \<in> client_mobile ` set cs
                then map (\<lambda>c. if client_mobile c = mobile f then clientOf f else c) cs
                else cs @ [clientOf f])\<rparr>, Inr ())"
proof -
  from assms(3) obtain b0 bs where b: "orderBlocks f = b0 # bs" by (cases "orderBlocks f") auto
  have fnd: "(find (\<lambda>c. client_mobile c = mobile f) cs = None) =
      (mobile f \<notin> client_mobile ` set cs)"
    unfolding find_None_iff image_iff by metis
  show ?thesis
  proof (cases "mobile f \<in> client_mobile ` set cs")
    case True
    with fnd obtain c where "find (\<lambda>c. client_mobile c = mobile f) cs = Some c"
      by (cases "find (\<lambda>c. client_mobile c = mobile f) cs") auto
    with True assms b show ?thesis
      by (simp add: saveClient_def Let_def clientOf_def assignExisting_map clients_unique_def)
  next
    case False
    with fnd have "find (\<lambda>c. client_mobile c = mobile f) cs = None" by simp
    with False assms b show ?thesis
      by (simp add: saveClient_def Let_def clientOf_def)
  qed
qed

lemma upsert_unique:
  assumes "clients_unique cs"
  shows "clients_unique
           (if mobile f \<in> client_mobile ` set cs
            then map (\<lambda>c. if client_mobile c = mobile f then clientOf f else c) cs
            else cs @ [clientOf f])"
proof -
  have m: "client_mobile (clientOf f) = mobile f" by (simp add: clientOf_def)
  show ?thesis
    using assms upsert_map_mobile [OF m, of cs]
    by (simp add: clients_unique_def m del: map_map)
qed

lemma upsert_one:
  assumes "clients_unique cs"
  shows "filter (\<lambda>c. client_mobile c = mobile f)
           (if mobile f \<in> client_mobile ` set cs
            then map (\<lambda>c. if client_mobile c = mobile f then clientOf f else c) cs
            else cs @ [clientOf f]) = [clientOf f]"
proof (cases "mobile f \<in> client_mobile ` set cs")
  case True
  have m: "client_mobile (clientOf f) = mobile f" by (simp add: clientOf_def)
  from True assms show ?thesis
    by (simp add: clients_unique_def upsert_filter m)
next
  case False
  have m: "client_mobile (clientOf f) = mobile f" by (simp add: clientOf_def)
  from False have "filter (\<lambda>c. client_mobile c = mobile f) cs = []"
    unfolding filter_empty_conv image_iff by metis
  with False show ?thesis by (simp add: m)
qed

lemma upsert_rest:
  assumes "client_mobile new = m"
  shows "filter (\<lambda>c. client_mobile c \<noteq> m)
           (if m \<in> client_mobile ` set cs
            then map (\<lambda>c. if client_mobile c = m then new else c) cs
            else cs @ [new]) = filter (\<lambda>c. client_mobile c \<noteq> m) cs"
proof -
  have "filter (\<lambda>c. client_mobile c \<noteq> m) (map (\<lambda>c. if client_mobile c = m then new else c) cs) =
      filter (\<lambda>c. client_mobile c \<noteq> m) cs"
    using assms by (induction cs) auto
  with assms show ?thesis by simp
qed

text \<open>
  Claim C6. The client upsert keeps at most one record for a mobile. For a form with a
  mobile, a name and a block, and a write that succeeds: when the \<^verbatim>\<open>clients\<close> key holds
  an array with at most one record for a mobile and is read, a record with the form's mobile
  is overwritten in its position with the form's values while every other record stays as
  and where it is, and with no such record the form's record is appended; the array
  written has at most one record for a mobile and exactly one for the form's, the orders
  are not touched, and a second form for the same mobile then leaves exactly one record for
  it, with the second form's values. When the key is absent, is not JSON or cannot be read,
  the array is read as empty and the form's record is the only one written. When the key
  holds JSON that is not an array, the upsert fails and writes nothing.
\<close>

theorem client_upsert_one_per_mobile:
  assumes "mobile f \<noteq> []" "clientName f \<noteq> []" "orderBlocks f \<noteq> []" "\<not> fails SetClients"
  shows
   "(\<not> fails GetClients \<and> clients_key st = Stored cs \<and> clients_unique cs \<longrightarrow>
       snd (saveClient fails f st) = Inr () \<and>
       clients_key (fst (saveClient fails f st)) =
         Stored (if mobile f \<in> client_mobile ` set cs
                 then map (\<lambda>c. if client_mobile c = mobile f then clientOf f else c) cs
                 else cs @ [clientOf f]) \<and>
       orders_key (fst (saveClient fails f st)) = orders_key st \<and>
       (\<exists>cs'. clients_key (fst (saveClient fails f st)) = Stored cs' \<and> clients_unique cs' \<and>
          filter (\<lambda>c. client_mobile c = mobile f) cs' = [clientOf f] \<and>
          filter (\<lambda>c. client_mobile c \<noteq> mobile f) cs' =
            filter (\<lambda>c. client_mobile c \<noteq> mobile f) cs) \<and>
       (\<forall>g. mobile g = mobile f \<and> clientName g \<noteq> [] \<and> orderBlocks g \<noteq> [] \<longrightarrow>
          (\<exists>cs''. clients_key (fst (saveClient fails g (fst (saveClient fails f st)))) =
               Stored cs'' \<and> clients_unique cs'' \<and>
             filter (\<lambda>c. client_mobile c = mobile f) cs'' = [clientOf g] \<and>
             filter (\<lambda>c. client_mobile c \<noteq> mobile f) cs'' =
               filter (\<lambda>c. client_mobile c \<noteq> mobile f) cs))) \<and>
    (fails GetClients \<or> clients_key st = Absent \<or> clients_key st = Unparsable \<longrightarrow>
       saveClient fails f st = (st\<lparr>clients_key := Stored [clientOf f]\<rparr>, Inr ())) \<and>
    (\<not> fails GetClients \<and> clients_key st = NonArray \<longrightarrow>
       saveClient fails f st = (st, Inl TypeError))"
proof (intro conjI impI)
  assume h: "\<not> fails GetClients \<and> clients_key st = Stored cs \<and> clients_unique cs"
  define new where
    "new = (if mobile f \<in> client_mobile ` set cs
            then map (\<lambda>c. if client_mobile c = mobile f then clientOf f else c) cs
            else cs @ [clientOf f])"
  define st' where "st' = st\<lparr>clients_key := Stored new\<rparr>"
  from h have l: "loadClients fails st = Array cs" by (simp add: loadClients_def)
  from h have u: "clients_unique cs" by simp
  have eq: "saveClient fails f st = (st', Inr ())"
    unfolding st'_def new_def by (rule saveClient_ok [OF assms l u])
  have un: "clients_unique new"
    unfolding new_def by (rule upsert_unique [OF u])
  have one: "filter (\<lambda>c. client_mobile c = mobile f) new = [clientOf f]"
    unfolding new_def by (rule upsert_one [OF u])
  have m: "client_mobile (clientOf f) = mobile f" by (simp add: clientOf_def)
  have rest: "filter (\<lambda>c. client_mobile c \<noteq> mobile f) new =
      filter (\<lambda>c. client_mobile c \<noteq> mobile f) cs"
    unfolding new_def by (rule upsert_rest [OF m])
  show "snd (saveClient fails f st) = Inr ()" by (simp add: eq)
  show "clients_key (fst (saveClient fails f st)) =
         Stored (if mobile f \<in> client_mobile ` set cs
                 then map (\<lambda>c. if client_mobile c = mobile f then clientOf f else c) cs
                 else cs @ [clientOf f])"
    by (simp add: eq st'_def new_def)
  show "orders_key (fst (saveClient fails f st)) = orders_key st"
    by (simp add: eq st'_def)
  show "\<exists>cs'. clients_key (fst (saveClient fails f st)) = Stored cs' \<and> clients_unique cs' \<and>
          filter (\<lambda>c. client_mobile c = mobile f) cs' = [clientOf f] \<and>
          filter (\<lambda>c. client_mobile c \<noteq> mobile f) cs' =
            filter (\<lambda>c. client_mobile c \<noteq> mobile f) cs"
    using un one rest by (simp add: eq st'_def)
  show "\<forall>g. mobile g = mobile f \<and> clientName g \<noteq> [] \<and> orderBlocks g \<noteq> [] \<longrightarrow>
          (\<exists>cs''. clients_key (fst (saveClient fails g (fst (saveClient fails f st)))) =
               Stored cs'' \<and> clients_unique cs'' \<and>
             filter (\<lambda>c. client_mobile c = mobile f) cs'' = [clientOf g] \<and>
             filter (\<lambda>c. client_mobile c \<noteq> mobile f) cs'' =
               filter (\<lambda>c. client_mobile c \<noteq> mobile f) cs)"
  proof (intro allI impI)
    fix g :: OrderForm
    assume g: "mobile g = mobile f \<and> clientName g \<noteq> [] \<and> orderBlocks g \<noteq> []"
    define new2 where
      "new2 = (if mobile g \<in> client_mobile ` set new
               then map (\<lambda>c. if client_mobile c = mobile g then clientOf g else c) new
               else new @ [clientOf g])"
    from g assms have b: "mobile g \<noteq> []" "clientName g \<noteq> []" "orderBlocks g \<noteq> []" by simp_all
    from h have l2: "loadClients fails st' = Array new" by (simp add: loadClients_def st'_def)
    have eq2: "saveClient fails g st' = (st'\<lparr>clients_key := Stored new2\<rparr>, Inr ())"
      unfolding new2_def by (rule saveClient_ok [OF b assms(4) l2 un])
    have un2: "clients_unique new2"
      unfolding new2_def by (rule upsert_unique [OF un])
    have one2: "filter (\<lambda>c. client_mobile c = mobile g) new2 = [clientOf g]"
      unfolding new2_def by (rule upsert_one [OF un])
    have mg: "client_mobile (clientOf g) = mobile g" by (simp add: clientOf_def)
    have rest2: "filter (\<lambda>c. client_mobile c \<noteq> mobile g) new2 =
        filter (\<lambda>c. client_mobile c \<noteq> mobile g) new"
      unfolding new2_def by (rule upsert_rest [OF mg])
    from un2 one2 rest2 rest g
    show "\<exists>cs''. clients_key (fst (saveClient fails g (fst (saveClient fails f st)))) =
               Stored cs'' \<and> clients_unique cs'' \<and>
             filter (\<lambda>c. client_mobile c = mobile f) cs'' = [clientOf g] \<and>
             filter (\<lambda>c. client_mobile c \<noteq> mobile f) cs'' =
               filter (\<lambda>c. client_mobile c \<noteq> mobile f) cs"
      by (simp add: eq eq2)
  qed
next
  assume h: "fails GetClients \<or> clients_key st = Absent \<or> clients_key st = Unparsable"
  then have l: "loadClients fails st = Array []" by (auto simp: loadClients_def)
  have u: "clients_unique []" by (simp add: clients_unique_def)
  from saveClient_ok [OF assms l u]
  show "saveClient fails f st = (st\<lparr>clients_key := Stored [clientOf f]\<rparr>, Inr ())" by simp
next
  assume h: "\<not> fails GetClients \<and> clients_key st = NonArray"
  then have "loadClients fails st = NotArray" by (simp add: loadClients_def)
  with assms show "saveClient fails f st = (st, Inl TypeError)"
    by (simp add: saveClient_def)
qed

lemma clientsStore_fields:
  "clients_key clientsStore = Stored [otherClient, oldClient]" "orders_key clientsStore = Absent"
  "clients_unique [otherClient, oldClient]"
  "client_mobile otherClient \<noteq> mobile formA" "client_mobile oldClient = mobile formA"
  by (simp_all add: clientsStore_def clients_unique_def otherClient_def oldClient_def formA_def)

theorem client_upsert_one_per_mobile_witness:
  "clients_key (fst (saveClient noFault formA clientsStore)) =
     Stored [otherClient, clientOf formA] \<and>
   clients_key (fst (saveClient noFault formB (fst (saveClient noFault formA clientsStore)))) =
     Stored [otherClient, clientOf formB] \<and>
   clients_key (fst (saveClient noFault formA emptyStore)) = Stored [clientOf formA] \<and>
   clientOf formA \<noteq> oldClient \<and> clientOf formB \<noteq> clientOf formA"
proof -
  have h: "mobile formA \<noteq> []" "clientName formA \<noteq> []" "orderBlocks formA \<noteq> []"
    "\<not> noFault SetClients"
    by (simp_all add: formA_def noFault_def)
  have s: "\<not> noFault GetClients \<and> clients_key clientsStore = Stored [otherClient, oldClient] \<and>
      clients_unique [otherClient, oldClient]"
    by (simp add: noFault_def clientsStore_fields)
  have e: "noFault GetClients \<or> clients_key emptyStore = Absent \<or> clients_key emptyStore = Unparsable"
    by (simp add: emptyStore_def)
  note t = client_upsert_one_per_mobile [where f = formA and fails = noFault and
      st = clientsStore and cs = "[otherClient, oldClient]", OF h]
  from t s have a: "clients_key (fst (saveClient noFault formA clientsStore)) =
      Stored [otherClient, clientOf formA]"
    by (simp add: clientsStore_fields)
  have b: "clients_key (fst (saveClient noFault formB (fst (saveClient noFault formA clientsStore)))) =
     Stored [otherClient, clientOf formB]"
    by (simp add: saveClient_def loadClients_def clientsStore_def noFault_def formA_def formB_def
        clientOf_def otherClient_def oldClient_def Let_def)
  from client_upsert_one_per_mobile [where f = formA and fails = noFault and
      st = emptyStore and cs = "[]", OF h] e
  have c: "clients_key (fst (saveClient noFault formA emptyStore)) = Stored [clientOf formA]"
    by simp
  have d: "clientOf formA \<noteq> oldClient \<and> clientOf formB \<noteq> clientOf formA"
    by (simp add: clientOf_def formA_def formB_def oldClient_def)
  from a b c d show ?thesis by simp
qed

section \<open>Properties of the quotation id\<close>

lemma fixedDigits_zero: "fixedDigits k 0 = replicate k CHR ''0''"
  by (induction k) (simp_all add: digit_char_def replicate_append_same)

lemma padStart_snoc:
  "padStart (Suc k) c (xs @ [d]) = padStart k c xs @ [d]"
  by (simp add: padStart_def)

lemma padStart_fixedDigits:
  "0 < k \<Longrightarrow> n < 10 ^ k \<Longrightarrow> padStart k CHR ''0'' (String_nat n) = fixedDigits k n"
proof (induction k arbitrary: n)
  case 0
  then show ?case by simp
next
  case (Suc k)
  show ?case
  proof (cases "n < 10")
    case True
    then have "String_nat n = [digit_char n]" by (subst String_nat.simps) simp
    with True show ?thesis
      by (simp add: padStart_def fixedDigits_zero)
  next
    case False
    then have s: "String_nat n = String_nat (n div 10) @ [digit_char (n mod 10)]"
      by (subst String_nat.simps) simp
    from False Suc.prems have k: "0 < k" by (cases k) auto
    from Suc.prems have "n div 10 < 10 ^ k" by (simp add: less_mult_imp_div_less mult.commute)
    with Suc.IH [OF k] have "padStart k CHR ''0'' (String_nat (n div 10)) = fixedDigits k (n div 10)"
      by simp
    then show ?thesis by (simp add: s padStart_snoc)
  qed
qed

lemma String_nat_fixedDigits:
  "0 < k \<Longrightarrow> 10 ^ (k - 1) \<le> n \<Longrightarrow> n < 10 ^ k \<Longrightarrow> String_nat n = fixedDigits k n"
proof (induction k arbitrary: n)
  case 0
  then show ?case by simp
next
  case (Suc k)
  show ?case
  proof (cases "k = 0")
    case True
    with Suc.prems have "n < 10" by simp
    then have "String_nat n = [digit_char n]" by (subst String_nat.simps) simp
    with True \<open>n < 10\<close> show ?thesis by simp
  next
    case False
    then obtain j where j: "k = Suc j" by (cases k) auto
    with Suc.prems have ge: "10 \<le> n" 
      by (metis One_nat_def diff_Suc_1 le_trans one_le_numeral self_le_power zero_less_Suc)
    then have s: "String_nat n = String_nat (n div 10) @ [digit_char (n mod 10)]"
      by (subst String_nat.simps) simp
    from Suc.prems have hi: "n div 10 < 10 ^ k" by (simp add: less_mult_imp_div_less mult.commute)
    from Suc.prems j have lo: "10 ^ (k - 1) \<le> n div 10"
      by (simp add: less_eq_div_iff_mult_less_eq mult.commute)
    from False Suc.IH [OF _ lo hi] show ?thesis by (simp add: s)
  qed
qed

lemmas calendar_eval =
  getDate_def getMonth_def getFullYear_def getHours_def getMinutes_def Day_def msPerDay_def
  DateFromDay_def MonthFromDay_def YearFromDay_def DayWithinYear_def DayFromYear_def
  daysBeforeMonth_def InLeapYear_def Let_def

text \<open>The table of the upper-case forms agrees with the arithmetic on the code units.\<close>

lemma upper_table: "list_all (\<lambda>c. (if c = CHR 0xDF then ''SS'' else [toUpperChar c]) = upperForm c) Enum.enum"
  by code_simp

lemma upper_space_table:
  "list_all (\<lambda>c. filter (\<lambda>x. \<not> isSpace x) (upperForm c) = (if isSpace c then [] else upperForm c))
     Enum.enum"
  by code_simp

lemma upperForm_toUpperChar: "(if c = CHR 0xDF then ''SS'' else [toUpperChar c]) = upperForm c"
  using upper_table by (simp add: list_all_iff enum_UNIV)

lemma upperForm_space:
  "filter (\<lambda>x. \<not> isSpace x) (upperForm c) = (if isSpace c then [] else upperForm c)"
  using upper_space_table by (simp add: list_all_iff enum_UNIV)

lemma toUpperCase_upperForm: "toUpperCase s = concat (map upperForm s)"
  unfolding toUpperCase_def by (simp only: upperForm_toUpperChar)

lemma filter_dropWhile_not: "filter (\<lambda>c. \<not> P c) (dropWhile P xs) = filter (\<lambda>c. \<not> P c) xs"
  by (induction xs) simp_all

lemma removeSpaceRuns_filter: "removeSpaceRuns s = filter (\<lambda>c. \<not> isSpace c) s"
  by (induction s rule: removeSpaceRuns.induct) (simp_all add: filter_dropWhile_not)

lemma upper_then_strip:
  "removeSpaceRuns (toUpperCase s) = concat (map upperForm (filter (\<lambda>c. \<not> isSpace c) s))"
  by (induction s) (simp_all add: removeSpaceRuns_filter toUpperCase_upperForm upperForm_space)

lemma orderIdBase_quotationBase: "orderIdBase name t = quotationBase name t"
proof -
  have "nat (getDate t) < 10 ^ 2" "0 \<le> getDate t"
    using getDate_range [of t] by simp_all linarith
  then have d: "padStart 2 CHR ''0'' (String_int (getDate t)) = fixedDigits 2 (nat (getDate t))"
    using padStart_fixedDigits [of 2 "nat (getDate t)"] by (simp add: String_int_def)
  have "nat (getMonth t + 1) < 10 ^ 2" "0 \<le> getMonth t + 1"
    using getMonth_range [of t] by simp_all linarith
  then have m: "padStart 2 CHR ''0'' (String_int (getMonth t + 1)) = fixedDigits 2 (nat (getMonth t + 1))"
    using padStart_fixedDigits [of 2 "nat (getMonth t + 1)"] by (simp add: String_int_def)
  show ?thesis
    by (simp add: orderIdBase_def quotationBase_def Let_def d m upper_then_strip)
qed

lemma same_base_count:
  "length (filter (\<lambda>x. case raw_id x of None \<Rightarrow> False | Some i \<Rightarrow> startsWith i base) orders) =
   idsStartingWith base orders"
  unfolding idsStartingWith_def
  by (induction orders) (simp_all add: List.map_filter_simps startsWith_def split: option.splits)

lemma fixedDigits_2: "fixedDigits 2 n = [digit_char (n div 10 mod 10), digit_char (n mod 10)]"
  by (simp add: numeral_2_eq_2)

lemma test_user_base:
  "getDate t = 5 \<Longrightarrow> getMonth t = 2 \<Longrightarrow> getFullYear t = 2025 \<Longrightarrow>
   quotationBase ''Test User'' t = ''TESTUSER05032025Q''"
  by (simp add: quotationBase_def upperForm_toUpperChar [symmetric] toUpperChar_def
      lowerLetters_def upperLetters_def isSpace_def digit_char_def fixedDigits_2
      String_int_def String_nat.simps)

text \<open>
  Claim C1. With a client name and a date present and the \<^verbatim>\<open>orders\<close> key read as the
  array it holds (or absent, which is read as the empty array), the generated id is the
  name without white space in upper case, the two digits of the day, the two digits of the
  month, the year, the letter Q and the zero-padded number one above the number of stored
  ids that start with that base. The year is four digits from 1000 to 9999 and the number
  three digits up to 999. For "Test User", 5 March 2025 and no matching order the id is
  TESTUSER05032025Q001. Without a name or a date the id is empty. The name is one whose
  upper case is within the code units of the model.
\<close>

theorem quotation_id_format:
  assumes "name \<noteq> []" "upperCaseInModel name" "\<not> fails GetOrders"
    and "orders_key st = Stored orders \<or> orders_key st = Absent \<and> orders = []"
    and "n = idsStartingWith (quotationBase name t) orders"
  shows
   "generateOrderId fails name (Some t) st =
      Inr (quotationBase name t @ padStart 3 CHR ''0'' (String_nat (n + 1))) \<and>
    (1000 \<le> getFullYear t \<and> getFullYear t \<le> 9999 \<longrightarrow>
       String_int (getFullYear t) = fixedDigits 4 (nat (getFullYear t))) \<and>
    (n + 1 \<le> 999 \<longrightarrow> padStart 3 CHR ''0'' (String_nat (n + 1)) = fixedDigits 3 (n + 1)) \<and>
    (name = ''Test User'' \<and> getDate t = 5 \<and> getMonth t = 2 \<and> getFullYear t = 2025 \<and> n = 0 \<longrightarrow>
       generateOrderId fails name (Some t) st = Inr ''TESTUSER05032025Q001'') \<and>
    generateOrderId fails [] dt st = Inr [] \<and>
    generateOrderId fails name None st = Inr []"
proof -
  from assms(3,4) have rd: "readOrders fails st = Inr (Array orders)"
    by (auto simp: readOrders_def)
  have gen: "generateOrderId fails name (Some t) st =
     Inr (quotationBase name t @ padStart 3 CHR ''0'' (String_nat (n + 1)))"
    using assms(1,5) rd
    by (simp add: generateOrderId_def Let_def orderIdBase_quotationBase same_base_count)
  have year: "1000 \<le> getFullYear t \<and> getFullYear t \<le> 9999 \<longrightarrow>
      String_int (getFullYear t) = fixedDigits 4 (nat (getFullYear t))"
  proof
    assume y: "1000 \<le> getFullYear t \<and> getFullYear t \<le> 9999"
    then have "10 ^ (4 - 1) \<le> nat (getFullYear t)" "nat (getFullYear t) < 10 ^ 4"
      by simp_all linarith+
    then have "String_nat (nat (getFullYear t)) = fixedDigits 4 (nat (getFullYear t))"
      by (intro String_nat_fixedDigits) simp_all
    with y show "String_int (getFullYear t) = fixedDigits 4 (nat (getFullYear t))"
      by (simp add: String_int_def)
  qed
  have seq: "n + 1 \<le> 999 \<longrightarrow> padStart 3 CHR ''0'' (String_nat (n + 1)) = fixedDigits 3 (n + 1)"
    using padStart_fixedDigits [of 3 "n + 1"] by simp
  have ex: "name = ''Test User'' \<and> getDate t = 5 \<and> getMonth t = 2 \<and> getFullYear t = 2025 \<and> n = 0 \<longrightarrow>
      generateOrderId fails name (Some t) st = Inr ''TESTUSER05032025Q001''"
    unfolding gen
    by (auto simp: test_user_base String_nat.simps padStart_def digit_char_def numeral_2_eq_2)
  have none: "generateOrderId fails [] dt st = Inr []" "generateOrderId fails name None st = Inr []"
    by (simp_all add: generateOrderId_def split: option.splits)
  show ?thesis
    by (intro conjI gen year seq ex none)
qed

lemma date_5_March_2025:
  "getDate 1741132800000 = 5" "getMonth 1741132800000 = 2" "getFullYear 1741132800000 = 2025"
  by (simp_all add: calendar_eval)

theorem quotation_id_format_witness:
  "generateOrderId noFault ''Test User'' (Some 1741132800000) (storeOf quotedOrders) =
     Inr ''TESTUSER05032025Q003'' \<and>
   generateOrderId noFault ''Test User'' (Some 1741132800000) (storeOf otherOrders) =
     Inr ''TESTUSER05032025Q001'' \<and>
   generateOrderId noFault ''Test User'' (Some 1741132800000) emptyStore =
     Inr ''TESTUSER05032025Q001''"
proof -
  note b = test_user_base [OF date_5_March_2025]
  have a: "''Test User'' \<noteq> []" "upperCaseInModel ''Test User''" "\<not> noFault GetOrders"
    by (simp_all add: upperCaseInModel_def noFault_def)
  have s1: "orders_key (storeOf quotedOrders) = Stored quotedOrders \<or>
      orders_key (storeOf quotedOrders) = Absent \<and> quotedOrders = []"
    by (simp add: storeOf_def)
  have n1: "(2::nat) = idsStartingWith (quotationBase ''Test User'' 1741132800000) quotedOrders"
    by (simp add: b idsStartingWith_def quotedOrders_def List.map_filter_simps)
  have s2: "orders_key (storeOf otherOrders) = Stored otherOrders \<or>
      orders_key (storeOf otherOrders) = Absent \<and> otherOrders = []"
    by (simp add: storeOf_def)
  have n2: "(0::nat) = idsStartingWith (quotationBase ''Test User'' 1741132800000) otherOrders"
    by (simp add: b idsStartingWith_def otherOrders_def List.map_filter_simps)
  have s3: "orders_key emptyStore = Stored [] \<or> orders_key emptyStore = Absent \<and> [] = ([] :: StoredOrder list)"
    by (simp add: emptyStore_def)
  have n3: "(0::nat) = idsStartingWith (quotationBase ''Test User'' 1741132800000) []"
    by (simp add: idsStartingWith_def List.map_filter_simps)
  have p: "padStart 3 CHR ''0'' (String_nat 3) = ''003''"
    by (simp add: padStart_def String_nat.simps digit_char_def numeral_2_eq_2)
  from quotation_id_format [where fails = noFault, OF a s1 n1, THEN conjunct1]
  have 1: "generateOrderId noFault ''Test User'' (Some 1741132800000) (storeOf quotedOrders) =
     Inr ''TESTUSER05032025Q003''"
    by (simp add: b p)
  from quotation_id_format [where fails = noFault, OF a s2 n2, THEN conjunct2, THEN conjunct2,
      THEN conjunct2, THEN conjunct1] date_5_March_2025
  have 2: "generateOrderId noFault ''Test User'' (Some 1741132800000) (storeOf otherOrders) =
     Inr ''TESTUSER05032025Q001''"
    by simp
  from quotation_id_format [where fails = noFault, OF a s3 n3, THEN conjunct2, THEN conjunct2,
      THEN conjunct2, THEN conjunct1] date_5_March_2025
  have 3: "generateOrderId noFault ''Test User'' (Some 1741132800000) emptyStore =
     Inr ''TESTUSER05032025Q001''"
    by simp
  from 1 2 3 show ?thesis by simp
qed

section \<open>Properties of generating and saving\<close>

lemmas number_eval =
  Number_def trim_def isSpace_def isDigit_def unsignedDecimal_def exponentPart_def
  digitsValue_def digit_val_def radixLiteral_def hexDigitValue_def negate_def isNaN_def Let_def

lemma saveSteps_early:
  assumes "fails EnsureFolder \<or> fails PrintToFile \<or> fails CopyFile \<or> fails GetOrders \<or>
    orders_key st = Unparsable \<or> orders_key st = NonArray \<or> fails SetOrders"
  shows "\<exists>e. saveSteps fails dir f st = (st, Inl e)"
proof -
  from assms consider "fails EnsureFolder \<or> fails PrintToFile \<or> fails CopyFile" |
    "fails GetOrders \<or> orders_key st = Unparsable" | "orders_key st = NonArray" | "fails SetOrders"
    by blast
  then show ?thesis
  proof cases
    case 1
    then show ?thesis by (auto simp: saveSteps_def Let_def)
  next
    case 2
    then have "readOrders fails st = Inl IOError \<or> readOrders fails st = Inl SyntaxError"
      by (auto simp: readOrders_def)
    then show ?thesis by (auto simp: saveSteps_def Let_def)
  next
    case 3
    then have "readOrders fails st = Inl IOError \<or> readOrders fails st = Inr NotArray"
      by (auto simp: readOrders_def)
    then show ?thesis by (auto simp: saveSteps_def Let_def)
  next
    case 4
    then show ?thesis
      by (auto simp: saveSteps_def Let_def split: sum.splits parsed.splits)
  qed
qed

lemma saveClient_fails:
  assumes "mobile f \<noteq> []" "clientName f \<noteq> []" "orderBlocks f \<noteq> []"
    and "fails SetClients \<or> \<not> fails GetClients \<and> clients_key st = NonArray"
  shows "\<exists>e. saveClient fails f st = (st, Inl e)"
  using assms
  by (cases "orderBlocks f")
    (auto simp: saveClient_def loadClients_def Let_def split: parsed.splits slot.splits)

lemma saveClient_read_fails:
  assumes "mobile f \<noteq> []" "clientName f \<noteq> []" "orderBlocks f \<noteq> []"
    and "\<not> fails SetClients" "fails GetClients"
  shows "saveClient fails f st = (st\<lparr>clients_key := Stored [clientOf f]\<rparr>, Inr ())"
  using assms
  by (cases "orderBlocks f") (simp_all add: saveClient_def loadClients_def Let_def clientOf_def)

lemma passesValidation_blocks: "passesValidation f \<Longrightarrow> orderBlocks f \<noteq> []"
  by (auto simp: passesValidation_def)

lemma generate_after_validation:
  "passesValidation f \<Longrightarrow>
   generateAndSavePDF fails dir f st =
     (case saveSteps fails dir f st of
        (st', Inr finalUri) \<Rightarrow> \<lparr>result = Some finalUri, snackbarMessage = None, storage = st'\<rparr>
      | (st', Inl e) \<Rightarrow>
          \<lparr>result = None, snackbarMessage = Some ''Failed to generate PDF'', storage = st'\<rparr>)"
  by (simp add: generateAndSavePDF_def passesValidation_def)

lemma saveSteps_late:
  assumes "\<not> fails EnsureFolder" "\<not> fails PrintToFile" "\<not> fails CopyFile" "\<not> fails GetOrders"
    "\<not> fails SetOrders" "orders_key st = Stored os \<or> orders_key st = Absent \<and> os = []"
  shows "saveSteps fails dir f st =
     (case saveClient fails f (st\<lparr>orders_key := Stored (os @ [newOrder (dir @ orderId f @ ''.pdf'') f])\<rparr>) of
        (st2, Inl e) \<Rightarrow> (st2, Inl e)
      | (st2, Inr u) \<Rightarrow> (st2, Inr (dir @ orderId f @ ''.pdf'')))"
proof -
  from assms(4,6) have "readOrders fails st = Inr (Array os)"
    by (auto simp: readOrders_def)
  with assms(1,2,3,5) show ?thesis
    by (simp add: saveSteps_def Let_def)
qed

text \<open>
  Claim C2, as the code has it. For a form that passed validation: when a step up to the
  write of the orders fails (the folder, the rendering, the copy, reading the orders, their
  text not being a JSON array, writing them), the call yields no result, surfaces "Failed to
  generate PDF" and leaves the store as it was. When those steps succeed and the upsert of
  the client fails (the write of the clients fails, or the text of the clients is JSON but
  not an array), the call still yields no result and the message, and the clients are as
  they were, but the orders hold the new order. When only the read of the clients fails,
  the upsert catches it: the call yields its result, the order is stored, and the clients
  hold the client of the form alone.
\<close>

theorem failed_save_outcome:
  assumes "passesValidation f"
  shows
   "(fails EnsureFolder \<or> fails PrintToFile \<or> fails CopyFile \<or> fails GetOrders \<or>
       orders_key st = Unparsable \<or> orders_key st = NonArray \<or> fails SetOrders \<longrightarrow>
       generateAndSavePDF fails dir f st =
         \<lparr>result = None, snackbarMessage = Some ''Failed to generate PDF'', storage = st\<rparr>) \<and>
    (\<not> fails EnsureFolder \<and> \<not> fails PrintToFile \<and> \<not> fails CopyFile \<and> \<not> fails GetOrders \<and>
       \<not> fails SetOrders \<and> (orders_key st = Stored os \<or> orders_key st = Absent \<and> os = []) \<longrightarrow>
       (fails SetClients \<or> \<not> fails GetClients \<and> clients_key st = NonArray \<longrightarrow>
          generateAndSavePDF fails dir f st =
            \<lparr>result = None, snackbarMessage = Some ''Failed to generate PDF'',
             storage = st\<lparr>orders_key := Stored (os @ [newOrder (dir @ orderId f @ ''.pdf'') f])\<rparr>\<rparr>) \<and>
       (fails GetClients \<and> \<not> fails SetClients \<longrightarrow>
          generateAndSavePDF fails dir f st =
            \<lparr>result = Some (dir @ orderId f @ ''.pdf''), snackbarMessage = None,
             storage = st\<lparr>orders_key := Stored (os @ [newOrder (dir @ orderId f @ ''.pdf'') f]),
                          clients_key := Stored [clientOf f]\<rparr>\<rparr>))"
proof -
  note g = generate_after_validation [OF assms]
  from assms have nm: "mobile f \<noteq> []" "clientName f \<noteq> []" "orderBlocks f \<noteq> []"
    using passesValidation_blocks [OF assms] by (simp_all add: passesValidation_def)
  have early: "fails EnsureFolder \<or> fails PrintToFile \<or> fails CopyFile \<or> fails GetOrders \<or>
       orders_key st = Unparsable \<or> orders_key st = NonArray \<or> fails SetOrders \<longrightarrow>
      generateAndSavePDF fails dir f st =
        \<lparr>result = None, snackbarMessage = Some ''Failed to generate PDF'', storage = st\<rparr>"
  proof
    assume "fails EnsureFolder \<or> fails PrintToFile \<or> fails CopyFile \<or> fails GetOrders \<or>
       orders_key st = Unparsable \<or> orders_key st = NonArray \<or> fails SetOrders"
    from saveSteps_early [OF this] obtain e where "saveSteps fails dir f st = (st, Inl e)" by blast
    then show "generateAndSavePDF fails dir f st =
        \<lparr>result = None, snackbarMessage = Some ''Failed to generate PDF'', storage = st\<rparr>"
      by (simp add: g)
  qed
  have late: "\<not> fails EnsureFolder \<and> \<not> fails PrintToFile \<and> \<not> fails CopyFile \<and> \<not> fails GetOrders \<and>
       \<not> fails SetOrders \<and> (orders_key st = Stored os \<or> orders_key st = Absent \<and> os = []) \<longrightarrow>
       (fails SetClients \<or> \<not> fails GetClients \<and> clients_key st = NonArray \<longrightarrow>
          generateAndSavePDF fails dir f st =
            \<lparr>result = None, snackbarMessage = Some ''Failed to generate PDF'',
             storage = st\<lparr>orders_key := Stored (os @ [newOrder (dir @ orderId f @ ''.pdf'') f])\<rparr>\<rparr>) \<and>
       (fails GetClients \<and> \<not> fails SetClients \<longrightarrow>
          generateAndSavePDF fails dir f st =
            \<lparr>result = Some (dir @ orderId f @ ''.pdf''), snackbarMessage = None,
             storage = st\<lparr>orders_key := Stored (os @ [newOrder (dir @ orderId f @ ''.pdf'') f]),
                          clients_key := Stored [clientOf f]\<rparr>\<rparr>)"
  proof (intro impI conjI)
    assume a: "\<not> fails EnsureFolder \<and> \<not> fails PrintToFile \<and> \<not> fails CopyFile \<and> \<not> fails GetOrders \<and>
       \<not> fails SetOrders \<and> (orders_key st = Stored os \<or> orders_key st = Absent \<and> os = [])"
    define st1 where "st1 = st\<lparr>orders_key := Stored (os @ [newOrder (dir @ orderId f @ ''.pdf'') f])\<rparr>"
    from a have s: "saveSteps fails dir f st =
       (case saveClient fails f st1 of
          (st2, Inl e) \<Rightarrow> (st2, Inl e)
        | (st2, Inr u) \<Rightarrow> (st2, Inr (dir @ orderId f @ ''.pdf'')))"
      unfolding st1_def by (intro saveSteps_late) simp_all
    {
      assume "fails SetClients \<or> \<not> fails GetClients \<and> clients_key st = NonArray"
      then have "fails SetClients \<or> \<not> fails GetClients \<and> clients_key st1 = NonArray"
        by (simp add: st1_def)
      from saveClient_fails [OF nm this] obtain e where "saveClient fails f st1 = (st1, Inl e)"
        by blast
      then show "generateAndSavePDF fails dir f st =
            \<lparr>result = None, snackbarMessage = Some ''Failed to generate PDF'',
             storage = st\<lparr>orders_key := Stored (os @ [newOrder (dir @ orderId f @ ''.pdf'') f])\<rparr>\<rparr>"
        by (simp add: g s st1_def)
    }
    {
      assume "fails GetClients \<and> \<not> fails SetClients"
      then have "saveClient fails f st1 = (st1\<lparr>clients_key := Stored [clientOf f]\<rparr>, Inr ())"
        by (intro saveClient_read_fails nm) simp_all
      then show "generateAndSavePDF fails dir f st =
            \<lparr>result = Some (dir @ orderId f @ ''.pdf''), snackbarMessage = None,
             storage = st\<lparr>orders_key := Stored (os @ [newOrder (dir @ orderId f @ ''.pdf'') f]),
                          clients_key := Stored [clientOf f]\<rparr>\<rparr>"
        by (simp add: g s st1_def)
    }
  qed
  show ?thesis
    by (intro conjI early late)
qed

lemma formA_fields:
  "orderId formA = ''TESTUSER05032025Q001''" "clientName formA = ''Test User''"
  "mobile formA = ''9876543210''" "address formA = ''12 Park Road''"
  "quotationAmount formA = ''25000''"
  "orderBlocks formA = [\<lparr>block_id = ''1'', block_description = ''Paneer tikka'',
                       block_notes = ''no onion'', block_guests = ''50''\<rparr>]"
  by (simp_all add: formA_def)

lemma formA_valid: "passesValidation formA"
  by (simp add: passesValidation_def formA_def number_eval)

theorem failed_save_outcome_witness:
  "generateAndSavePDF clientWriteFault bbnDir formA clientsStore =
     \<lparr>result = None, snackbarMessage = Some ''Failed to generate PDF'',
      storage = clientsStore\<lparr>orders_key := Stored [newOrder (bbnDir @ orderId formA @ ''.pdf'') formA]\<rparr>\<rparr> \<and>
   generateAndSavePDF noFault bbnDir formA (clientsStore\<lparr>orders_key := NonArray\<rparr>) =
     \<lparr>result = None, snackbarMessage = Some ''Failed to generate PDF'',
      storage = clientsStore\<lparr>orders_key := NonArray\<rparr>\<rparr> \<and>
   generateAndSavePDF noFault bbnDir formA (clientsStore\<lparr>clients_key := NonArray\<rparr>) =
     \<lparr>result = None, snackbarMessage = Some ''Failed to generate PDF'',
      storage = clientsStore\<lparr>clients_key := NonArray,
        orders_key := Stored [newOrder (bbnDir @ orderId formA @ ''.pdf'') formA]\<rparr>\<rparr>"
proof -
  have h: "\<not> clientWriteFault EnsureFolder \<and> \<not> clientWriteFault PrintToFile \<and>
      \<not> clientWriteFault CopyFile \<and> \<not> clientWriteFault GetOrders \<and>
      \<not> clientWriteFault SetOrders \<and>
      (orders_key clientsStore = Stored [] \<or> orders_key clientsStore = Absent \<and> [] = ([] :: StoredOrder list))"
    "clientWriteFault SetClients \<or>
      \<not> clientWriteFault GetClients \<and> clients_key clientsStore = NonArray"
    by (simp_all add: clientWriteFault_def clientsStore_def)
  have e: "noFault EnsureFolder \<or> noFault PrintToFile \<or> noFault CopyFile \<or> noFault GetOrders \<or>
       orders_key (clientsStore\<lparr>orders_key := NonArray\<rparr>) = Unparsable \<or>
       orders_key (clientsStore\<lparr>orders_key := NonArray\<rparr>) = NonArray \<or> noFault SetOrders"
    by simp
  have n: "\<not> noFault EnsureFolder \<and> \<not> noFault PrintToFile \<and>
      \<not> noFault CopyFile \<and> \<not> noFault GetOrders \<and> \<not> noFault SetOrders \<and>
      (orders_key (clientsStore\<lparr>clients_key := NonArray\<rparr>) = Stored [] \<or>
       orders_key (clientsStore\<lparr>clients_key := NonArray\<rparr>) = Absent \<and> [] = ([] :: StoredOrder list))"
    "noFault SetClients \<or>
      \<not> noFault GetClients \<and> clients_key (clientsStore\<lparr>clients_key := NonArray\<rparr>) = NonArray"
    by (simp_all add: noFault_def clientsStore_def)
  from failed_save_outcome [OF formA_valid, of clientWriteFault clientsStore bbnDir "[]"] h
  have 1: "generateAndSavePDF clientWriteFault bbnDir formA clientsStore =
     \<lparr>result = None, snackbarMessage = Some ''Failed to generate PDF'',
      storage = clientsStore\<lparr>orders_key := Stored [newOrder (bbnDir @ orderId formA @ ''.pdf'') formA]\<rparr>\<rparr>"
    by (simp only: append_Nil) blast
  from failed_save_outcome [OF formA_valid, of noFault "clientsStore\<lparr>orders_key := NonArray\<rparr>" bbnDir "[]"] e
  have 2: "generateAndSavePDF noFault bbnDir formA (clientsStore\<lparr>orders_key := NonArray\<rparr>) =
     \<lparr>result = None, snackbarMessage = Some ''Failed to generate PDF'',
      storage = clientsStore\<lparr>orders_key := NonArray\<rparr>\<rparr>"
    by blast
  from failed_save_outcome [OF formA_valid, of noFault "clientsStore\<lparr>clients_key := NonArray\<rparr>" bbnDir "[]"] n
  have 3: "generateAndSavePDF noFault bbnDir formA (clientsStore\<lparr>clients_key := NonArray\<rparr>) =
     \<lparr>result = None, snackbarMessage = Some ''Failed to generate PDF'',
      storage = clientsStore\<lparr>clients_key := NonArray,
        orders_key := Stored [newOrder (bbnDir @ orderId formA @ ''.pdf'') formA]\<rparr>\<rparr>"
    by (simp only: append_Nil) blast
  from 1 2 3 show ?thesis by simp
qed

text \<open>
  A failed write of the clients is a failed storage step, yet the order is persisted;
  a failed read of the clients is a failed storage step, yet the call yields a result.
\<close>

theorem failed_save_persists_order:
  "clientWriteFault SetClients \<and>
   result (generateAndSavePDF clientWriteFault bbnDir formA emptyStore) = None \<and>
   snackbarMessage (generateAndSavePDF clientWriteFault bbnDir formA emptyStore) =
     Some ''Failed to generate PDF'' \<and>
   orders_key emptyStore = Absent \<and>
   orders_key (storage (generateAndSavePDF clientWriteFault bbnDir formA emptyStore)) =
     Stored [newOrder (bbnDir @ orderId formA @ ''.pdf'') formA] \<and>
   clientReadFault GetClients \<and>
   result (generateAndSavePDF clientReadFault bbnDir formA emptyStore) =
     Some (bbnDir @ orderId formA @ ''.pdf'')"
proof -
  have 1: "generateAndSavePDF clientWriteFault bbnDir formA emptyStore =
     \<lparr>result = None, snackbarMessage = Some ''Failed to generate PDF'',
      storage = emptyStore\<lparr>orders_key := Stored [newOrder (bbnDir @ orderId formA @ ''.pdf'') formA]\<rparr>\<rparr>"
    by (simp add: generate_after_validation [OF formA_valid] saveSteps_def Let_def
        clientWriteFault_def readOrders_def emptyStore_def formA_fields saveClient_def
        loadClients_def)
  have 2: "result (generateAndSavePDF clientReadFault bbnDir formA emptyStore) =
     Some (bbnDir @ orderId formA @ ''.pdf'')"
    by (simp add: generate_after_validation [OF formA_valid] saveSteps_def Let_def
        clientReadFault_def readOrders_def emptyStore_def formA_fields saveClient_def
        loadClients_def)
  have 3: "orders_key emptyStore = Absent" by (simp add: emptyStore_def)
  show ?thesis
    by (simp add: 1 2 3 clientWriteFault_def clientReadFault_def)
qed

text \<open>
  Claim C3. The check of the mobile takes any ten characters that \<^verbatim>\<open>Number\<close> can read:
  \<^verbatim>\<open>+123456789\<close> passes it and a PDF is generated, although it is not ten digits. Of the
  three values of the specification, the two malformed ones are refused with the message
  and the store untouched, and the well-formed one passes.
\<close>

theorem mobile_check_accepts_signed:
  "result (generateAndSavePDF noFault bbnDir (formA\<lparr>mobile := ''+123456789''\<rparr>) emptyStore) =
     Some (bbnDir @ ''TESTUSER05032025Q001.pdf'') \<and>
   generateAndSavePDF noFault bbnDir (formA\<lparr>mobile := ''98765432''\<rparr>) emptyStore =
     \<lparr>result = None, snackbarMessage = Some ''Mobile must be 10 digits.'', storage = emptyStore\<rparr> \<and>
   generateAndSavePDF noFault bbnDir (formA\<lparr>mobile := ''98765432ab''\<rparr>) emptyStore =
     \<lparr>result = None, snackbarMessage = Some ''Mobile must be 10 digits.'', storage = emptyStore\<rparr> \<and>
   result (generateAndSavePDF noFault bbnDir (formA\<lparr>mobile := ''9876543210''\<rparr>) emptyStore) =
     Some (bbnDir @ ''TESTUSER05032025Q001.pdf'')"
proof -
  have v: "passesValidation (formA\<lparr>mobile := ''+123456789''\<rparr>)"
    by (simp add: passesValidation_def formA_fields number_eval)
  have 1: "result (generateAndSavePDF noFault bbnDir (formA\<lparr>mobile := ''+123456789''\<rparr>) emptyStore) =
     Some (bbnDir @ ''TESTUSER05032025Q001.pdf'')"
    by (simp add: generate_after_validation [OF v] saveSteps_def Let_def noFault_def
        readOrders_def emptyStore_def formA_fields saveClient_def loadClients_def)
  have 2: "generateAndSavePDF noFault bbnDir (formA\<lparr>mobile := ''98765432''\<rparr>) emptyStore =
     \<lparr>result = None, snackbarMessage = Some ''Mobile must be 10 digits.'', storage = emptyStore\<rparr>"
    by (simp add: generateAndSavePDF_def formA_fields)
  have 3: "generateAndSavePDF noFault bbnDir (formA\<lparr>mobile := ''98765432ab''\<rparr>) emptyStore =
     \<lparr>result = None, snackbarMessage = Some ''Mobile must be 10 digits.'', storage = emptyStore\<rparr>"
    by (simp add: generateAndSavePDF_def formA_fields number_eval)
  have w: "formA\<lparr>mobile := ''9876543210''\<rparr> = formA" by (simp add: formA_def)
  have 4: "result (generateAndSavePDF noFault bbnDir (formA\<lparr>mobile := ''9876543210''\<rparr>) emptyStore) =
     Some (bbnDir @ ''TESTUSER05032025Q001.pdf'')"
    unfolding w
    by (simp add: generate_after_validation [OF formA_valid] saveSteps_def Let_def noFault_def
        readOrders_def emptyStore_def formA_fields saveClient_def loadClients_def)
  from 1 2 3 4 show ?thesis by simp
qed

theorem mobile_check_accepts_signed_witness:
  "result (generateAndSavePDF noFault bbnDir (formA\<lparr>mobile := ''+123456789''\<rparr>) emptyStore) \<noteq> None"
  using mobile_check_accepts_signed by simp

section \<open>Properties of loading the history\<close>

lemma dedupeLoop_firstById: "dedupeLoop seen acc xs = acc @ firstById seen xs"
  by (induction xs arbitrary: seen acc) simp_all

lemma dedupe_firstById: "dedupe xs = firstById {} xs"
  by (simp add: dedupe_def dedupeLoop_firstById)

lemma firstById_ids: "map order_id (firstById seen xs) = firstSeen seen (map order_id xs)"
  by (induction xs arbitrary: seen) simp_all

lemma firstSeen_set: "set (firstSeen seen ys) = set ys - seen"
  by (induction ys arbitrary: seen) auto

lemma firstSeen_distinct: "distinct (firstSeen seen ys)"
  by (induction ys arbitrary: seen) (auto simp: firstSeen_set)

lemma firstById_subseq: "subseq (firstById seen xs) xs"
  by (induction xs arbitrary: seen) auto

lemma firstById_subset: "set (firstById seen xs) \<subseteq> set xs"
  by (induction xs arbitrary: seen) auto

lemma firstById_length: "length (firstById seen xs) \<le> length xs"
  by (induction xs arbitrary: seen) (auto simp: le_SucI)

lemma firstById_id_unseen:
  assumes "x \<in> set (firstById seen xs)"
  shows "order_id x \<notin> seen"
proof -
  from assms have "order_id x \<in> set (map order_id (firstById seen xs))" by simp
  then show ?thesis by (simp add: firstById_ids firstSeen_set)
qed

lemma firstById_first:
  "x \<in> set (firstById seen xs) \<Longrightarrow> find (\<lambda>y. order_id y = order_id x) xs = Some x"
proof (induction xs arbitrary: seen)
  case Nil
  then show ?case by simp
next
  case (Cons a xs)
  show ?case
  proof (cases "order_id a \<in> seen")
    case True
    with Cons.prems have x: "x \<in> set (firstById seen xs)" by simp
    from firstById_id_unseen [OF x] True have "order_id a \<noteq> order_id x" by auto
    with Cons.IH [OF x] show ?thesis by simp
  next
    case False
    with Cons.prems consider "x = a" | "x \<in> set (firstById (insert (order_id a) seen) xs)"
      by auto
    then show ?thesis
    proof cases
      case 1
      then show ?thesis by simp
    next
      case 2
      from firstById_id_unseen [OF 2] have "order_id a \<noteq> order_id x" by auto
      with Cons.IH [OF 2] show ?thesis by simp
    qed
  qed
qed

lemma firstById_same:
  "distinct (map order_id xs) \<Longrightarrow> set (map order_id xs) \<inter> seen = {} \<Longrightarrow> firstById seen xs = xs"
  by (induction xs arbitrary: seen) auto

lemma truthy_iff: "truthy v \<longleftrightarrow> (\<exists>s. v = Some s \<and> s \<noteq> [])"
  by (cases v) (simp_all add: truthy_def)

lemma valid_filter_complete:
  "filter (\<lambda>x. truthy (raw_id x) \<and> truthy (raw_dateTime x) \<and> truthy (raw_pdfUri x)) orders =
   filter complete orders"
  by (rule filter_cong) (auto simp: truthy_iff complete_def)

lemma keepValid_fields:
  "x \<in> set (keepValid orders) \<Longrightarrow> order_id x \<noteq> [] \<and> order_dateTime x \<noteq> [] \<and> order_pdfUri x \<noteq> []"
  by (auto simp: keepValid_def valid_filter_complete complete_def normalize_def orElse_def)

lemma normalize_toStored: "normalize (toStored x) = x"
  by (simp add: normalize_def toStored_def orElse_def)

lemma keepValid_toStored:
  "\<forall>x\<in>set xs. order_id x \<noteq> [] \<and> order_dateTime x \<noteq> [] \<and> order_pdfUri x \<noteq> [] \<Longrightarrow>
   keepValid (map toStored xs) = xs"
proof (induction xs)
  case Nil
  then show ?case by (simp add: keepValid_def)
next
  case (Cons a xs)
  then have "keepValid (map toStored xs) = xs" by simp
  moreover have "truthy (raw_id (toStored a)) \<and> truthy (raw_dateTime (toStored a)) \<and>
      truthy (raw_pdfUri (toStored a))"
    using Cons.prems by (simp add: truthy_def toStored_def)
  ultimately show ?case
    using normalize_toStored [of a] by (simp add: keepValid_def)
qed

lemma dedupe_idem: "dedupe (dedupe xs) = dedupe xs"
proof -
  have "distinct (map order_id (firstById {} xs))"
    by (simp add: firstById_ids firstSeen_distinct)
  then show ?thesis
    by (simp add: dedupe_firstById firstById_same)
qed

text \<open>
  Claim C5. Loading a stored orders array (1) keeps exactly the entries with a non-empty
  id, date and time, and PDF path, in their order, (2) keeps of the entries with one id
  only the first, in the order they had, and (3) writes the cleaned array back if and only
  if the deduplication removed an entry. The array written has one complete entry for each
  order kept, and reads back as the orders kept; a second load, of what the first one left
  in the store, writes nothing.
\<close>

theorem history_load_repairs:
  "orders_key st = Stored orders \<Longrightarrow> \<not> fails GetOrders \<Longrightarrow> \<not> fails SetOrders \<Longrightarrow>
   valid = keepValid orders \<Longrightarrow> deduped = dedupe valid \<Longrightarrow> out = loadHistory fails clock st \<Longrightarrow>
   valid = map normalize (filter complete orders) \<and>
   (\<forall>x\<in>set valid. order_id x \<noteq> [] \<and> order_dateTime x \<noteq> [] \<and> order_pdfUri x \<noteq> []) \<and>
   subseq deduped valid \<and>
   distinct (map order_id deduped) \<and>
   map order_id deduped = firstSeen {} (map order_id valid) \<and>
   (\<forall>x\<in>set deduped. find (\<lambda>y. order_id y = order_id x) valid = Some x) \<and>
   (history_wrote out \<longleftrightarrow> length deduped < length valid) \<and>
   (history_wrote out \<longrightarrow> history_storage out = st\<lparr>orders_key := Stored (map toStored deduped)\<rparr>) \<and>
   (history_wrote out \<longrightarrow>
      length (ordersOf (history_storage out)) = length deduped \<and>
      list_all complete (ordersOf (history_storage out)) \<and>
      keepValid (ordersOf (history_storage out)) = deduped \<and>
      dedupe (keepValid (ordersOf (history_storage out))) = deduped) \<and>
   (\<not> history_wrote out \<longrightarrow> history_storage out = st) \<and>
   \<not> history_wrote (loadHistory fails clock' (history_storage out))"
proof -
  assume st: "orders_key st = Stored orders" and f: "\<not> fails GetOrders" "\<not> fails SetOrders"
    and v: "valid = keepValid orders" and d: "deduped = dedupe valid"
    and out: "out = loadHistory fails clock st"
  have 1: "valid = map normalize (filter complete orders)"
    by (simp add: v keepValid_def valid_filter_complete)
  have 2: "\<forall>x\<in>set valid. order_id x \<noteq> [] \<and> order_dateTime x \<noteq> [] \<and> order_pdfUri x \<noteq> []"
    using keepValid_fields [of _ orders] by (simp add: v)
  have 3: "subseq deduped valid"
    by (simp add: d dedupe_firstById firstById_subseq)
  have 5: "map order_id deduped = firstSeen {} (map order_id valid)"
    by (simp add: d dedupe_firstById firstById_ids)
  have 4: "distinct (map order_id deduped)"
    by (simp add: 5 firstSeen_distinct)
  have 6: "\<forall>x\<in>set deduped. find (\<lambda>y. order_id y = order_id x) valid = Some x"
    by (simp add: d dedupe_firstById firstById_first)
  have le: "length deduped \<le> length valid"
    by (simp add: d dedupe_firstById firstById_length)
  have 7: "history_wrote out \<longleftrightarrow> length deduped < length valid"
    using le st f by (auto simp: out loadHistory_def Let_def v [symmetric] d [symmetric])
  have 8: "history_wrote out \<longrightarrow> history_storage out = st\<lparr>orders_key := Stored (map toStored deduped)\<rparr>"
    using st f by (auto simp: out loadHistory_def Let_def v [symmetric] d [symmetric])
  have 9: "\<not> history_wrote out \<longrightarrow> history_storage out = st"
    using st f by (auto simp: out loadHistory_def Let_def v [symmetric] d [symmetric])
  have "set deduped \<subseteq> set valid"
    by (simp add: d dedupe_firstById firstById_subset)
  with 2 have fields: "\<forall>x\<in>set deduped. order_id x \<noteq> [] \<and> order_dateTime x \<noteq> [] \<and> order_pdfUri x \<noteq> []"
    by blast
  then have k: "keepValid (map toStored deduped) = deduped" by (rule keepValid_toStored)
  have i: "dedupe deduped = deduped" by (simp add: d dedupe_idem)
  have c: "list_all complete (map toStored deduped)"
    using fields by (simp add: list_all_iff complete_def toStored_def)
  have 11: "history_wrote out \<longrightarrow>
      length (ordersOf (history_storage out)) = length deduped \<and>
      list_all complete (ordersOf (history_storage out)) \<and>
      keepValid (ordersOf (history_storage out)) = deduped \<and>
      dedupe (keepValid (ordersOf (history_storage out))) = deduped"
  proof
    assume "history_wrote out"
    with 8 have s: "ordersOf (history_storage out) = map toStored deduped"
      by (simp add: ordersOf_def)
    show "length (ordersOf (history_storage out)) = length deduped \<and>
      list_all complete (ordersOf (history_storage out)) \<and>
      keepValid (ordersOf (history_storage out)) = deduped \<and>
      dedupe (keepValid (ordersOf (history_storage out))) = deduped"
      unfolding s using k i c by simp
  qed
  have 10: "\<not> history_wrote (loadHistory fails clock' (history_storage out))"
  proof (cases "history_wrote out")
    case True
    with 8 have s: "history_storage out = st\<lparr>orders_key := Stored (map toStored deduped)\<rparr>" by simp
    show ?thesis
      using f by (simp add: s loadHistory_def Let_def k i)
  next
    case False
    with 9 have s: "history_storage out = st" by simp
    from False 7 le have e: "length deduped = length valid" by simp
    show ?thesis
      using st f e by (simp add: s loadHistory_def Let_def v [symmetric] d [symmetric])
  qed
  show ?thesis by (intro conjI 1 2 3 4 5 6 7 8 11 9 10)
qed

lemma entryX1_round_trip: "toStored (normalize entryX1) = entryX1"
  by (simp add: toStored_def normalize_def orElse_def entryX1_def)

theorem history_load_repairs_witness:
  "dedupe (keepValid [entryX1, entryNoPdf, entryX1again]) = [normalize entryX1] \<and>
   history_wrote (loadHistory noFault atLoad dirtyStore) \<and>
   history_storage (loadHistory noFault atLoad dirtyStore) =
     dirtyStore\<lparr>orders_key := Stored [entryX1]\<rparr> \<and>
   keepValid (ordersOf (history_storage (loadHistory noFault atLoad dirtyStore))) =
     [normalize entryX1] \<and>
   \<not> history_wrote (loadHistory noFault atLoad
        (history_storage (loadHistory noFault atLoad dirtyStore)))"
proof -
  have h: "orders_key dirtyStore = Stored [entryX1, entryNoPdf, entryX1again]"
    "\<not> noFault GetOrders" "\<not> noFault SetOrders"
    by (simp_all add: dirtyStore_def noFault_def)
  have v: "keepValid [entryX1, entryNoPdf, entryX1again] = [normalize entryX1, normalize entryX1again]"
    by (simp add: keepValid_def truthy_def entryX1_def entryNoPdf_def entryX1again_def)
  have d: "dedupe [normalize entryX1, normalize entryX1again] = [normalize entryX1]"
    by (simp add: dedupe_def normalize_def orElse_def entryX1_def entryX1again_def)
  note t = history_load_repairs [OF h refl refl refl, of atLoad atLoad]
  from t have w: "history_wrote (loadHistory noFault atLoad dirtyStore)"
    by (simp add: v d)
  from t w have s: "history_storage (loadHistory noFault atLoad dirtyStore) =
     dirtyStore\<lparr>orders_key := Stored [entryX1]\<rparr>"
    by (simp add: v d entryX1_round_trip)
  from t have "history_wrote (loadHistory noFault atLoad dirtyStore) \<longrightarrow>
      keepValid (ordersOf (history_storage (loadHistory noFault atLoad dirtyStore))) =
        dedupe (keepValid [entryX1, entryNoPdf, entryX1again])"
    by blast
  with w have k: "keepValid (ordersOf (history_storage (loadHistory noFault atLoad dirtyStore))) =
     [normalize entryX1]"
    by (simp only: v d)
  from t have n: "\<not> history_wrote (loadHistory noFault atLoad
        (history_storage (loadHistory noFault atLoad dirtyStore)))"
    by blast
  from v d w s k n show ?thesis by simp
qed

section \<open>Properties of digits, splitting and matching\<close>

lemmas upper_eval =
  toUpperCase_def toUpperChar_def lowerLetters_def upperLetters_def

lemma isDigit_digit_char: "n < 10 \<Longrightarrow> isDigit (digit_char n)"
proof -
  assume "n < 10"
  then have "n \<in> {0, 1, 2, 3, 4, 5, 6, 7, 8, 9}" by auto
  then show ?thesis by (auto simp: isDigit_def digit_char_def)
qed

lemma digit_val_digit_char: "n < 10 \<Longrightarrow> digit_val (digit_char n) = n"
proof -
  assume "n < 10"
  then have "n \<in> {0, 1, 2, 3, 4, 5, 6, 7, 8, 9}" by auto
  then show ?thesis by (auto simp: digit_val_def digit_char_def)
qed

lemma fixedDigits_all_digits: "list_all isDigit (fixedDigits k n)"
  by (induction k arbitrary: n) (simp_all add: isDigit_digit_char)

lemma fixedDigits_nonempty: "0 < k \<Longrightarrow> fixedDigits k n \<noteq> []"
  by (cases k) simp_all

lemma digitsValue_snoc: "digitsValue (s @ [c]) = 10 * digitsValue s + int (digit_val c)"
  by (simp add: digitsValue_def)

lemma digitsValue_fixedDigits: "n < 10 ^ k \<Longrightarrow> digitsValue (fixedDigits k n) = int n"
proof (induction k arbitrary: n)
  case 0
  then show ?case by (simp add: digitsValue_def)
next
  case (Suc k)
  then have "n div 10 < 10 ^ k" by (simp add: less_mult_imp_div_less mult.commute)
  with Suc.IH have "digitsValue (fixedDigits k (n div 10)) = int (n div 10)" by simp
  then show ?case
    by (simp add: digitsValue_snoc digit_val_digit_char zdiv_int zmod_int)
qed

lemma digits_not_space: "isDigit c \<Longrightarrow> \<not> isSpace c"
  by (auto simp: isDigit_def isSpace_def)

lemma trim_digits:
  assumes "s \<noteq> []" "list_all isDigit s"
  shows "trim s = s"
proof -
  from assms obtain c r where s: "s = c # r" by (cases s) auto
  with assms have "\<not> isSpace c" by (simp add: digits_not_space)
  with s have a: "dropWhile isSpace s = s" by simp
  from assms have "rev s \<noteq> []" "list_all isDigit (rev s)" by (simp_all add: list_all_iff)
  then obtain c' r' where r: "rev s = c' # r'" "isDigit c'" by (cases "rev s") auto
  then have "dropWhile isSpace (rev s) = rev s" by (simp add: digits_not_space)
  with a show ?thesis by (simp add: trim_def)
qed

lemma Number_digits:
  assumes "s \<noteq> []" "list_all isDigit s"
  shows "Number s = Finite (digitsValue s) 0"
proof -
  from assms obtain c r where s: "s = c # r" by (cases s) auto
  with assms have c: "isDigit c" and r: "list_all isDigit r" by simp_all
  from c have c1: "c \<noteq> CHR ''+''" "c \<noteq> CHR ''-''" "c \<noteq> CHR ''I''"
    by (auto simp: isDigit_def)
  have r1: "r \<noteq> [] \<Longrightarrow> hd r \<notin> set ''xX'' \<and> hd r \<notin> set ''oO'' \<and> hd r \<notin> set ''bB''"
  proof -
    assume "r \<noteq> []"
    with r have "isDigit (hd r)" by (cases r) simp_all
    then show ?thesis by (auto simp: isDigit_def)
  qed
  from assms have tw: "takeWhile isDigit s = s" "dropWhile isDigit s = []"
    by (simp_all add: list_all_iff)
  from s c1 have inf: "s \<noteq> ''Infinity''" by auto
  have u: "unsignedDecimal s = Finite (digitsValue s) 0"
    using assms(1) inf by (simp add: unsignedDecimal_def tw exponentPart_def)
  have t: "trim (c # r) = c # r"
    using trim_digits [OF assms] by (simp add: s)
  have u': "unsignedDecimal (c # r) = Finite (digitsValue (c # r)) 0"
    using u by (simp add: s)
  show ?thesis
    unfolding s Number_def t using r1 c1 u' by (auto simp: Let_def)
qed

lemma split_walk:
  "s0 \<notin> set xs \<Longrightarrow> splitFrom (s0 # sr) acc (xs @ ys) = splitFrom (s0 # sr) (rev xs @ acc) ys"
  by (induction xs arbitrary: acc) auto













lemma takeWhile_digits:
  "list_all isDigit h \<Longrightarrow> \<not> isDigit c \<Longrightarrow> takeWhile isDigit (h @ c # r) = h"
  by (simp add: list_all_iff takeWhile_append2)

lemma dropWhile_digits:
  "list_all isDigit h \<Longrightarrow> \<not> isDigit c \<Longrightarrow> dropWhile isDigit (h @ c # r) = c # r"
  by (simp add: list_all_iff dropWhile_append2)

lemma digit_no_sep: "list_all isDigit s \<Longrightarrow> CHR '' '' \<notin> set s \<and> CHR ''/'' \<notin> set s \<and> CHR '':'' \<notin> set s"
proof -
  assume a: "list_all isDigit s"
  have "\<not> isDigit CHR '' ''" "\<not> isDigit CHR ''/''" "\<not> isDigit CHR '':''"
    by (simp_all add: isDigit_def)
  with a show ?thesis unfolding list_all_iff by blast
qed

lemma String_nat_digits: "list_all isDigit (String_nat n) \<and> String_nat n \<noteq> []"
proof (induction n rule: String_nat.induct)
  case (1 n)
  show ?case
  proof (cases "n < 10")
    case True
    then have "String_nat n = [digit_char n]" by (subst String_nat.simps) simp
    with True show ?thesis by (simp add: isDigit_digit_char)
  next
    case False
    then have "String_nat n = String_nat (n div 10) @ [digit_char (n mod 10)]"
      by (subst String_nat.simps) simp
    with False 1 show ?thesis by (simp add: isDigit_digit_char)
  qed
qed

lemma digitsValue_String_nat: "digitsValue (String_nat n) = int n"
proof (induction n rule: String_nat.induct)
  case (1 n)
  show ?case
  proof (cases "n < 10")
    case True
    then have "String_nat n = [digit_char n]" by (subst String_nat.simps) simp
    with True show ?thesis by (simp add: digitsValue_def digit_val_digit_char)
  next
    case False
    then have "String_nat n = String_nat (n div 10) @ [digit_char (n mod 10)]"
      by (subst String_nat.simps) simp
    with False 1 show ?thesis
      by (simp add: digitsValue_snoc digit_val_digit_char zdiv_int zmod_int)
  qed
qed

lemma split_date_part:
  assumes "list_all isDigit d1" "list_all isDigit d2" "list_all isDigit d3"
  shows "split ''/'' (d1 @ ''/'' @ d2 @ ''/'' @ d3) = [d1, d2, d3]"
proof -
  from assms have n: "CHR ''/'' \<notin> set d1" "CHR ''/'' \<notin> set d2" "CHR ''/'' \<notin> set d3"
    by (simp_all add: digit_no_sep)
  have 3: "splitFrom ''/'' [] d3 = [d3]"
    using split_walk [OF n(3), of "[]" "[]" "[]"] by simp
  have 2: "splitFrom ''/'' [] (d2 @ ''/'' @ d3) = [d2, d3]"
    using split_walk [OF n(2), of "[]" "[]" "''/'' @ d3"] by (simp add: 3)
  have 1: "splitFrom ''/'' [] (d1 @ ''/'' @ d2 @ ''/'' @ d3) = [d1, d2, d3]"
    using split_walk [OF n(1), of "[]" "[]" "''/'' @ d2 @ ''/'' @ d3"] 2 by simp
  then show ?thesis by (simp add: split_def)
qed

lemma split_dateTime:
  assumes "CHR '' '' \<notin> set D" "CHR '' '' \<notin> set T1" "ap = ''AM'' \<or> ap = ''PM''"
  shows "split '' at '' (D @ '' at '' @ T1 @ '' '' @ ap) = [D, T1 @ '' '' @ ap]"
proof -
  have t: "splitFrom '' at '' [] (T1 @ '' '' @ ap) = [T1 @ '' '' @ ap]"
    using split_walk [OF assms(2), of "''at ''" "[]" "'' '' @ ap"] assms(3) by auto
  have "splitFrom '' at '' [] (D @ '' at '' @ T1 @ '' '' @ ap) = D # splitFrom '' at '' [] (T1 @ '' '' @ ap)"
    using split_walk [OF assms(1), of "''at ''" "[]" "'' at '' @ T1 @ '' '' @ ap"] by simp
  with t show ?thesis by (simp add: split_def)
qed

lemma timeMatch_canonical:
  assumes "h \<noteq> []" "list_all isDigit h" "mm \<noteq> []" "list_all isDigit mm" "ap = ''AM'' \<or> ap = ''PM''"
  shows "timeMatch (h @ CHR '':'' # mm @ CHR '' '' # ap) = Some (h, mm, ap)"
proof -
  have nd: "\<not> isDigit CHR '':''" "\<not> isDigit CHR '' ''" "isSpace CHR '' ''"
    by (simp_all add: isDigit_def isSpace_def)
  have a: "takeWhile isDigit (h @ CHR '':'' # mm @ CHR '' '' # ap) = h"
    "dropWhile isDigit (h @ CHR '':'' # mm @ CHR '' '' # ap) = CHR '':'' # mm @ CHR '' '' # ap"
    using assms(2) nd(1) by (rule takeWhile_digits, rule dropWhile_digits)
  have b: "takeWhile isDigit (mm @ CHR '' '' # ap) = mm"
    "dropWhile isDigit (mm @ CHR '' '' # ap) = CHR '' '' # ap"
    using assms(4) nd(2) by (rule takeWhile_digits, rule dropWhile_digits)
  have c: "dropWhile isSpace (CHR '' '' # ap) = ap" "take 2 ap = ap"
    "toUpperCase ap = ''AM'' \<or> toUpperCase ap = ''PM''"
    using assms(5) nd by (auto simp: upper_eval isSpace_def)
  have at: "timeMatchAt (h @ CHR '':'' # mm @ CHR '' '' # ap) = Some (h, mm, ap)"
    unfolding timeMatchAt_def a Let_def list.sel b c(1,2)
    using assms(1,3) c(3) by simp
  from assms(1) obtain x xs where e: "h @ CHR '':'' # mm @ CHR '' '' # ap = x # xs"
    by (cases h) auto
  show ?thesis
    unfolding e using at [unfolded e] by simp
qed

lemma parseDate_wellformed:
  assumes "split '' at '' s = [datePart, timePart]"
    and "split ''/'' datePart = [ds, ms, ys]"
    and "\<not> isNaN (Number ds)" "\<not> isNaN (Number ms)" "\<not> isNaN (Number ys)"
    and "timeMatch timePart = Some (h, mi, ampm)"
  shows "parseDate now s =
           newDate (Number ys) (minusOne (Number ms)) (Number ds)
             (hour24 (toUpperCase ampm) (parseInt h)) (parseInt mi)"
proof -
  from assms(1) have "s \<noteq> []" by (auto simp: split_def)
  with assms show ?thesis
    by (auto simp: parseDate_def Let_def hour24_def)
qed

lemma parseInt_digits: "list_all isDigit s \<Longrightarrow> parseInt s = digitsValue s"
  by (simp add: parseInt_def list_all_iff takeWhile_eq_all_conv [THEN iffD2])

lemma parse_canonical:
  assumes "d1 \<noteq> []" "list_all isDigit d1" "d2 \<noteq> []" "list_all isDigit d2"
    and "d3 \<noteq> []" "list_all isDigit d3"
    and "h \<noteq> []" "list_all isDigit h" "mm \<noteq> []" "list_all isDigit mm"
    and "ap = ''AM'' \<or> ap = ''PM''"
  shows "parseDate now ((d1 @ ''/'' @ d2 @ ''/'' @ d3) @ '' at '' @ (h @ '':'' @ mm) @ '' '' @ ap) =
           newDate (Finite (digitsValue d3) 0) (minusOne (Finite (digitsValue d2) 0))
             (Finite (digitsValue d1) 0) (hour24 ap (digitsValue h)) (digitsValue mm)"
proof -
  have sp: "CHR '' '' \<notin> set (d1 @ ''/'' @ d2 @ ''/'' @ d3)" "CHR '' '' \<notin> set (h @ '':'' @ mm)"
    using assms by (simp_all add: digit_no_sep)
  note a = split_dateTime [OF sp assms(11)]
  note b = split_date_part [OF assms(2,4,6)]
  have n: "Number d1 = Finite (digitsValue d1) 0" "Number d2 = Finite (digitsValue d2) 0"
    "Number d3 = Finite (digitsValue d3) 0"
    using assms by (simp_all add: Number_digits)
  have t: "timeMatch ((h @ '':'' @ mm) @ '' '' @ ap) = Some (h, mm, ap)"
    using timeMatch_canonical [OF assms(7-11)] by simp
  have u: "toUpperCase ap = ap"
    using assms(11) by (auto simp: upper_eval)
  have nn: "\<not> isNaN (Number d1)" "\<not> isNaN (Number d2)" "\<not> isNaN (Number d3)"
    by (simp_all add: n isNaN_def)
  have "parseDate now ((d1 @ ''/'' @ d2 @ ''/'' @ d3) @ '' at '' @ (h @ '':'' @ mm) @ '' '' @ ap) =
      newDate (Number d3) (minusOne (Number d2)) (Number d1)
        (hour24 (toUpperCase ap) (parseInt h)) (parseInt mm)"
    by (rule parseDate_wellformed [OF a b nn t])
  then show ?thesis
    by (simp only: n u parseInt_digits [OF assms(8)] parseInt_digits [OF assms(10)])
qed

section \<open>Properties of the date parser\<close>










section \<open>Properties of sorting and grouping\<close>


























section \<open>Properties of writing and reading the date and time\<close>

lemma toLocaleDateString_digits:
  assumes "0 \<le> getFullYear t" "getFullYear t \<le> 9999"
  shows "toLocaleDateString_enGB t =
           (fixedDigits 2 (nat (getDate t)) @ ''/'' @ fixedDigits 2 (nat (getMonth t + 1)) @ ''/'' @
            fixedDigits 4 (nat (getFullYear t)))"
proof -
  have "nat (getDate t) < 10 ^ 2" "0 \<le> getDate t"
    using getDate_range [of t] by simp_all linarith
  then have d: "padStart 2 CHR ''0'' (String_int (getDate t)) = fixedDigits 2 (nat (getDate t))"
    using padStart_fixedDigits [of 2 "nat (getDate t)"] by (simp add: String_int_def)
  have "nat (getMonth t + 1) < 10 ^ 2" "0 \<le> getMonth t + 1"
    using getMonth_range [of t] by simp_all linarith
  then have m: "padStart 2 CHR ''0'' (String_int (getMonth t + 1)) = fixedDigits 2 (nat (getMonth t + 1))"
    using padStart_fixedDigits [of 2 "nat (getMonth t + 1)"] by (simp add: String_int_def)
  have "nat (getFullYear t) < 10 ^ 4"
    using assms by simp
  then have y: "padStart 4 CHR ''0'' (String_int (getFullYear t)) = fixedDigits 4 (nat (getFullYear t))"
    using padStart_fixedDigits [of 4 "nat (getFullYear t)"] assms(1) by (simp add: String_int_def)
  show ?thesis
    by (simp only: toLocaleDateString_enGB_def d m y)
qed

lemma toLocaleTimeString_digits:
  "toLocaleTimeString_enUS t =
     (String_nat (nat (hour12 (getHours t))) @ '':'' @ fixedDigits 2 (nat (getMinutes t))) @ '' '' @
     meridiem (getHours t)"
proof -
  have "nat (getMinutes t) < 10 ^ 2" "0 \<le> getMinutes t"
    using getMinutes_range [of t] by simp_all linarith
  then have m: "padStart 2 CHR ''0'' (String_int (getMinutes t)) = fixedDigits 2 (nat (getMinutes t))"
    using padStart_fixedDigits [of 2 "nat (getMinutes t)"] by (simp add: String_int_def)
  have "0 \<le> hour12 (getHours t)" by (simp add: hour12_def)
  then have h: "String_int (hour12 (getHours t)) = String_nat (nat (hour12 (getHours t)))"
    by (simp add: String_int_def)
  show ?thesis
    unfolding toLocaleTimeString_enUS_def Let_def hour12_def [symmetric] meridiem_def [symmetric] m h
    by simp
qed

lemma hour24_hour12: "0 \<le> h \<Longrightarrow> h \<le> 23 \<Longrightarrow> hour24 (meridiem h) (hour12 h) = h"
proof -
  assume a: "0 \<le> h" "h \<le> 23"
  show ?thesis
  proof (cases "h < 12")
    case True
    with a have "h mod 12 = h" by simp
    with True a show ?thesis by (auto simp: hour24_def meridiem_def hour12_def)
  next
    case False
    with a have "h mod 12 = h - 12"
      using mod_pos_pos_trivial [of "h - 12" 12] minus_mod_self2 [of h 12] by simp
    with False a show ?thesis by (auto simp: hour24_def meridiem_def hour12_def)
  qed
qed

lemma Day_bounds:
  assumes "1000 \<le> getFullYear t" "getFullYear t \<le> 9999"
  shows "- 354285 \<le> Day t \<and> Day t < 2932897"
proof -
  have lo: "DayFromYear 1000 = - 354285" and hi: "DayFromYear 10000 = 2932897"
    by (simp_all add: DayFromYear_def)
  from YearFromDay_bracket [of "Day t"]
  have b: "DayFromYear (getFullYear t) \<le> Day t" "Day t < DayFromYear (getFullYear t + 1)"
    by (simp_all add: getFullYear_def)
  from assms DayFromYear_mono [of 1000 "getFullYear t"] DayFromYear_mono [of "getFullYear t + 1" 10000]
  have "DayFromYear 1000 \<le> DayFromYear (getFullYear t)"
    "DayFromYear (getFullYear t + 1) \<le> DayFromYear 10000" by simp_all
  with b lo hi show ?thesis by linarith
qed

lemma built_time_getters:
  assumes "0 \<le> h" "h \<le> 23" "0 \<le> m" "m \<le> 59"
    and "T = MakeDate dy (MakeTime h m 0 0)"
  shows "Day T = dy" "getHours T = h" "getMinutes T = m"
proof -
  have T: "T = dy * 86400000 + h * 3600000 + m * 60000"
    by (simp add: assms(5) MakeDate_def MakeTime_def msPerDay_def)
  have e1: "T = 86400000 * dy + (h * 3600000 + m * 60000)" by (simp add: T)
  have r1: "0 \<le> h * 3600000 + m * 60000" "h * 3600000 + m * 60000 < 86400000"
    using assms(1-4) by linarith+
  show "Day T = dy"
    unfolding Day_def msPerDay_def by (rule int_div_pos_eq [OF e1 r1])
  have e2: "T = 3600000 * (dy * 24 + h) + m * 60000" by (simp add: T)
  have r2: "0 \<le> m * 60000" "m * 60000 < 3600000" using assms(3,4) by linarith+
  have "T div 3600000 = dy * 24 + h" by (rule int_div_pos_eq [OF e2 r2])
  moreover have "(dy * 24 + h) mod 24 = h" using assms(1,2) by simp
  ultimately show "getHours T = h" by (simp add: getHours_def)
  have e3: "T = 60000 * (dy * 1440 + h * 60 + m) + 0" by (simp add: T)
  have "T div 60000 = dy * 1440 + h * 60 + m"
    by (rule int_div_pos_eq [OF e3]) simp_all
  moreover have "(dy * 1440 + h * 60 + m) mod 60 = m"
  proof -
    have "dy * 1440 + h * 60 + m = 60 * (dy * 24 + h) + m" by simp
    then show ?thesis using assms(3,4) by (simp only: mod_mult_self4) simp
  qed
  ultimately show "getMinutes T = m" by (simp add: getMinutes_def)
qed

lemma newDate_of_getters:
  assumes "1000 \<le> getFullYear t" "getFullYear t \<le> 9999"
    and "0 \<le> h" "h \<le> 23" "0 \<le> m" "m \<le> 59"
  shows "newDate (Finite (getFullYear t) 0) (minusOne (Finite (getMonth t + 1) 0))
           (Finite (getDate t) 0) h m = Date (MakeDate (Day t) (MakeTime h m 0 0))"
proof -
  have md: "MakeDay (getFullYear t) (getMonth t) (getDate t) = Day t"
    using MakeDay_getters [of "Day t"] by (simp add: getFullYear_def getMonth_def getDate_def)
  from Day_bounds [OF assms(1,2)] assms(3-6)
  have "\<bar>MakeDate (Day t) (MakeTime h m 0 0)\<bar> \<le> 8640000000000000"
    unfolding MakeDate_def MakeTime_def msPerDay_def by linarith
  then have tc: "TimeClip (MakeDate (Day t) (MakeTime h m 0 0)) = Date (MakeDate (Day t) (MakeTime h m 0 0))"
    by (simp add: TimeClip_def)
  have r: "0 \<le> getMonth t" "getMonth t \<le> 11" "1 \<le> getDate t" "getDate t \<le> 31"
    using getMonth_range [of t] getDate_range [of t] by simp_all
  have s: "safeInteger (Finite (getFullYear t) 0) = Some (getFullYear t)"
    "safeInteger (Finite (getMonth t + 1) 0) = Some (getMonth t + 1)"
    "safeInteger (Finite (getMonth t) 0) = Some (getMonth t)"
    "safeInteger (Finite (getDate t) 0) = Some (getDate t)"
    using assms(1,2) r by (simp_all add: safeInteger_def safeLimit_def)
  have l: "h \<le> safeLimit" "m \<le> safeLimit"
    using assms(4,6) by (simp_all add: safeLimit_def)
  show ?thesis
    using assms(1) by (simp add: newDate_def notFinite_def minusOne_def s l md tc)
qed

text \<open>
  Claim C8. For every date of the form whose year has four digits and every time, the
  string that \<^verbatim>\<open>formatDateTime\<close> writes is parsed by its structure: it splits on " at "
  into the date and the time written, the date splits on "/" into the three numbers
  written, and the time matches the pattern. The date parsed has the day, month and year
  of the form's date and the hour and minute of the form's time, whatever the current
  moment is.
\<close>

theorem dateTime_round_trip:
  "1000 \<le> getFullYear (date f) \<Longrightarrow> getFullYear (date f) \<le> 9999 \<Longrightarrow>
   T = MakeDate (Day (date f)) (MakeTime (getHours (time f)) (getMinutes (time f)) 0 0) \<Longrightarrow>
   split '' at '' (formatDateTime f) =
     [toLocaleDateString_enGB (date f), toLocaleTimeString_enUS (time f)] \<and>
   map Number (split ''/'' (toLocaleDateString_enGB (date f))) =
     [Finite (getDate (date f)) 0, Finite (getMonth (date f) + 1) 0,
      Finite (getFullYear (date f)) 0] \<and>
   timeMatch (toLocaleTimeString_enUS (time f)) =
     Some (String_int (hour12 (getHours (time f))),
           padStart 2 CHR ''0'' (String_int (getMinutes (time f))), meridiem (getHours (time f))) \<and>
   parseDate now (formatDateTime f) = Date T \<and>
   getFullYear T = getFullYear (date f) \<and> getMonth T = getMonth (date f) \<and>
   getDate T = getDate (date f) \<and> getHours T = getHours (time f) \<and>
   getMinutes T = getMinutes (time f)"
proof -
  assume y: "1000 \<le> getFullYear (date f)" "getFullYear (date f) \<le> 9999"
    and T: "T = MakeDate (Day (date f)) (MakeTime (getHours (time f)) (getMinutes (time f)) 0 0)"
  define d1 where "d1 = fixedDigits 2 (nat (getDate (date f)))"
  define d2 where "d2 = fixedDigits 2 (nat (getMonth (date f) + 1))"
  define d3 where "d3 = fixedDigits 4 (nat (getFullYear (date f)))"
  define hs where "hs = String_nat (nat (hour12 (getHours (time f))))"
  define mm where "mm = fixedDigits 2 (nat (getMinutes (time f)))"
  define ap where "ap = meridiem (getHours (time f))"
  from y have y0: "0 \<le> getFullYear (date f)" by simp
  have ds: "toLocaleDateString_enGB (date f) = d1 @ ''/'' @ d2 @ ''/'' @ d3"
    unfolding d1_def d2_def d3_def by (rule toLocaleDateString_digits [OF y0 y(2)])
  have ts: "toLocaleTimeString_enUS (time f) = (hs @ '':'' @ mm) @ '' '' @ ap"
    unfolding hs_def mm_def ap_def by (rule toLocaleTimeString_digits)
  have dg: "d1 \<noteq> []" "list_all isDigit d1" "d2 \<noteq> []" "list_all isDigit d2"
    "d3 \<noteq> []" "list_all isDigit d3" "hs \<noteq> []" "list_all isDigit hs"
    "mm \<noteq> []" "list_all isDigit mm"
    by (simp_all add: d1_def d2_def d3_def hs_def mm_def fixedDigits_nonempty
        fixedDigits_all_digits String_nat_digits)
  have apc: "ap = ''AM'' \<or> ap = ''PM''" by (simp add: ap_def meridiem_def)
  have rd: "1 \<le> getDate (date f)" "getDate (date f) \<le> 31" "0 \<le> getMonth (date f)"
    "getMonth (date f) \<le> 11"
    using getDate_range [of "date f"] getMonth_range [of "date f"] by simp_all
  have rt: "0 \<le> getHours (time f)" "getHours (time f) \<le> 23" "0 \<le> getMinutes (time f)"
    "getMinutes (time f) \<le> 59"
    using getHours_range [of "time f"] getMinutes_range [of "time f"] by simp_all
  have "nat (getDate (date f)) < 10 ^ 2" "nat (getMonth (date f) + 1) < 10 ^ 2"
    "nat (getFullYear (date f)) < 10 ^ 4" "nat (getMinutes (time f)) < 10 ^ 2"
    using rd rt y by simp_all
  then have dv: "digitsValue d1 = getDate (date f)" "digitsValue d2 = getMonth (date f) + 1"
    "digitsValue d3 = getFullYear (date f)" "digitsValue mm = getMinutes (time f)"
    using rd rt y0 by (simp_all add: d1_def d2_def d3_def mm_def digitsValue_fixedDigits)
  have "0 \<le> hour12 (getHours (time f))" by (simp add: hour12_def)
  then have hv: "digitsValue hs = hour12 (getHours (time f))"
    by (simp add: hs_def digitsValue_String_nat)
  have sp: "CHR '' '' \<notin> set (d1 @ ''/'' @ d2 @ ''/'' @ d3)" "CHR '' '' \<notin> set (hs @ '':'' @ mm)"
    using dg by (simp_all add: digit_no_sep)
  have 1: "split '' at '' (formatDateTime f) =
     [toLocaleDateString_enGB (date f), toLocaleTimeString_enUS (time f)]"
    unfolding formatDateTime_def ds ts by (rule split_dateTime [OF sp apc])
  have 2: "map Number (split ''/'' (toLocaleDateString_enGB (date f))) =
     [Finite (getDate (date f)) 0, Finite (getMonth (date f) + 1) 0,
      Finite (getFullYear (date f)) 0]"
    unfolding ds split_date_part [OF dg(2,4,6)]
    by (simp add: Number_digits [OF dg(1,2)] Number_digits [OF dg(3,4)]
        Number_digits [OF dg(5,6)] dv)
  have hs': "String_int (hour12 (getHours (time f))) = hs"
    using \<open>0 \<le> hour12 (getHours (time f))\<close> by (simp add: hs_def String_int_def)
  have mm': "padStart 2 CHR ''0'' (String_int (getMinutes (time f))) = mm"
    using rt padStart_fixedDigits [of 2 "nat (getMinutes (time f))"]
    by (simp add: mm_def String_int_def)
  have 3: "timeMatch (toLocaleTimeString_enUS (time f)) =
     Some (String_int (hour12 (getHours (time f))),
           padStart 2 CHR ''0'' (String_int (getMinutes (time f))), meridiem (getHours (time f)))"
    unfolding ts hs' mm' ap_def [symmetric]
    using timeMatch_canonical [OF dg(7-10) apc] by simp
  have "parseDate now (formatDateTime f) =
      newDate (Finite (digitsValue d3) 0) (minusOne (Finite (digitsValue d2) 0))
        (Finite (digitsValue d1) 0) (hour24 ap (digitsValue hs)) (digitsValue mm)"
    unfolding formatDateTime_def ds ts by (rule parse_canonical [OF dg apc])
  also have "\<dots> = Date T"
    unfolding dv hv ap_def hour24_hour12 [OF rt(1,2)] T
    by (rule newDate_of_getters [OF y rt])
  finally have 4: "parseDate now (formatDateTime f) = Date T" .
  note g = built_time_getters [OF rt T]
  have 5: "getFullYear T = getFullYear (date f)" "getMonth T = getMonth (date f)"
    "getDate T = getDate (date f)"
    by (simp_all add: getFullYear_def getMonth_def getDate_def g(1))
  from 1 2 3 4 5 g(2,3) show ?thesis by simp
qed

theorem dateTime_round_trip_witness:
  "formatDateTime formA = ''05/03/2025 at 2:30 PM'' \<and>
   parseDate InvalidDate (formatDateTime formA) = Date 1741185000000 \<and>
   getDate 1741185000000 = 5 \<and> getMonth 1741185000000 = 2 \<and> getFullYear 1741185000000 = 2025 \<and>
   getHours 1741185000000 = 14 \<and> getMinutes 1741185000000 = 30"
proof -
  have dt: "date formA = 1741132800000" "time formA = 1741185000000"
    by (simp_all add: formA_def)
  have g: "getFullYear 1741132800000 = 2025" "getMonth 1741132800000 = 2"
    "getDate 1741132800000 = 5" "getHours 1741185000000 = 14" "getMinutes 1741185000000 = 30"
    "Day 1741132800000 = 20152"
    by (simp_all add: calendar_eval)
  have y: "1000 \<le> getFullYear (date formA)" "getFullYear (date formA) \<le> 9999"
    by (simp_all add: dt g)
  have T: "(1741185000000 :: int) =
      MakeDate (Day (date formA)) (MakeTime (getHours (time formA)) (getMinutes (time formA)) 0 0)"
    by (simp add: dt g MakeDate_def MakeTime_def msPerDay_def)
  have s: "formatDateTime formA = ''05/03/2025 at 2:30 PM''"
    by (simp add: formatDateTime_def toLocaleDateString_enGB_def toLocaleTimeString_enUS_def dt g
        Let_def padStart_def String_int_def String_nat.simps digit_char_def)
  from dateTime_round_trip [OF y T, of InvalidDate] s dt g show ?thesis by simp
qed

end
